theory Spec2Isabelle
  imports Complex_Main "HOL-Library.Word" "HOL-Library.Multiset"
begin

section \<open>Projection (src/main.py, lines 12-44)\<close>

text \<open>
  Python floats are read as real numbers. Every exception the source can raise is a
  constructor of \<open>exc\<close>; a function that may raise returns \<open>exc + 'a\<close>, with
  \<open>Inl\<close> for the exception.
\<close>

datatype exc =
    ZeroDivisionError
  | ValueError
  | KeyError string
  | UnidentifiedImageError

text \<open>\<open>math.radians\<close>.\<close>

definition radians :: "real \<Rightarrow> real" where
  "radians d = d * pi / 180"

text \<open>
  \<open>lat_lon_to_tile\<close>, lines 12-16. \<open>zoom\<close> is a non-negative integer, so
  \<open>2 ** zoom\<close> is an integer power. Line 15 divides by \<open>math.cos(...)\<close>, which
  raises \<open>ZeroDivisionError\<close> on a zero divisor, and then calls \<open>math.log\<close>, which
  raises \<open>ValueError\<close> on an argument that is not positive.
\<close>

definition lat_lon_to_tile :: "real \<Rightarrow> real \<Rightarrow> nat \<Rightarrow> exc + (real \<times> real)" where
  "lat_lon_to_tile lat lon zoom =
     (let n = (2::real) ^ zoom;
          x = (lon + 180) / 360 * n
      in if cos (radians lat) = 0 then Inl ZeroDivisionError
         else let a = tan (radians lat) + 1 / cos (radians lat)
              in if a \<le> 0 then Inl ValueError
                 else Inr (x, (1 - ln a / pi) / 2 * n))"

text \<open>
  Python's \<open>min\<close> and \<open>max\<close> over a list. On the empty list Python raises
  \<open>ValueError\<close>; the source calls them on a four-element literal (lines 33-36) and on
  the tile list after the emptiness guard (lines 151-157) only.
\<close>

fun py_min :: "'a::linorder list \<Rightarrow> 'a" where
  "py_min (x # xs) = fold min xs x"

fun py_max :: "'a::linorder list \<Rightarrow> 'a" where
  "py_max (x # xs) = fold max xs x"

text \<open>Lines 39-42: \<open>max(0, min(v, n - 1))\<close>.\<close>

definition clamp_tile :: "int \<Rightarrow> int \<Rightarrow> int" where
  "clamp_tile n v = max 0 (min v (n - 1))"

text \<open>
  \<open>get_tiles_in_bbox\<close>, lines 18-42: the inclusive bounds
  \<open>(start_x, end_x, start_y, end_y)\<close> of the tile range. The four corners are
  projected in the source's order (NW, NE, SW, SE), so the first exception raised is the
  one the source raises.
\<close>

definition tile_range :: "real \<Rightarrow> real \<Rightarrow> real \<Rightarrow> real \<Rightarrow> nat \<Rightarrow> exc + (int \<times> int \<times> int \<times> int)" where
  "tile_range min_lat0 max_lat0 min_lon0 max_lon0 zoom =
     (let (min_lat, max_lat) =
            (if min_lat0 > max_lat0 then (max_lat0, min_lat0) else (min_lat0, max_lat0));
          (min_lon, max_lon) =
            (if min_lon0 > max_lon0 then (max_lon0, min_lon0) else (min_lon0, max_lon0))
      in case lat_lon_to_tile max_lat min_lon zoom of Inl e \<Rightarrow> Inl e | Inr nw \<Rightarrow>
         (case lat_lon_to_tile max_lat max_lon zoom of Inl e \<Rightarrow> Inl e | Inr ne \<Rightarrow>
         (case lat_lon_to_tile min_lat min_lon zoom of Inl e \<Rightarrow> Inl e | Inr sw \<Rightarrow>
         (case lat_lon_to_tile min_lat max_lon zoom of Inl e \<Rightarrow> Inl e | Inr se \<Rightarrow>
            (let coords = [nw, ne, sw, se];
                 x_vals = map fst coords;
                 y_vals = map snd coords;
                 start_x = \<lfloor>py_min x_vals\<rfloor>;
                 end_x = \<lceil>py_max x_vals\<rceil>;
                 start_y = \<lfloor>py_min y_vals\<rfloor>;
                 end_y = \<lceil>py_max y_vals\<rceil>;
                 n = (2::int) ^ zoom
             in Inr (clamp_tile n start_x, clamp_tile n end_x,
                     clamp_tile n start_y, clamp_tile n end_y))))))"

text \<open>Line 44: the list comprehension over the two inclusive ranges, x outermost.\<close>

definition tiles_of_range :: "int \<times> int \<times> int \<times> int \<Rightarrow> (int \<times> int) list" where
  "tiles_of_range r =
     (case r of (start_x, end_x, start_y, end_y) \<Rightarrow>
        [(x, y). x \<leftarrow> [start_x..end_x], y \<leftarrow> [start_y..end_y]])"

definition get_tiles_in_bbox :: "real \<Rightarrow> real \<Rightarrow> real \<Rightarrow> real \<Rightarrow> nat \<Rightarrow> exc + (int \<times> int) list" where
  "get_tiles_in_bbox min_lat max_lat min_lon max_lon zoom =
     (case tile_range min_lat max_lat min_lon max_lon zoom of
        Inl e \<Rightarrow> Inl e
      | Inr r \<Rightarrow> Inr (tiles_of_range r))"

section \<open>Tile store and fetcher (src/main.py, lines 46-87)\<close>

text \<open>
  The outside world of a fetch. A path is the list of its components, file contents and
  response bodies are byte strings. \<open>requests.get\<close> either returns a response (status
  code and body) or raises a \<open>requests.exceptions.RequestException\<close>; which of the two
  happens is given by the environment, as a function of the number of requests issued
  before and of the request. \<open>Image.open\<close> is the environment's \<open>decode\<close>: it fails
  (\<open>UnidentifiedImageError\<close>) on bytes that are no image.
\<close>

type_synonym path = "string list"
type_synonym bytes = "8 word list"
type_synonym headers = "(string \<times> string) list option"
type_synonym request = "string \<times> headers \<times> nat"

datatype reply = Response int bytes | RequestException

type_synonym pixel = "8 word \<times> 8 word \<times> 8 word \<times> 8 word"

text \<open>
  A PIL image: its mode string, its size (width, height), whether \<open>info\<close> has the key
  \<open>'transparency'\<close>, and its pixels. The pixel at (column, row) is kept as red, green,
  blue and alpha bytes, the value \<open>convert('RGBA')\<close> gives it; an image without alpha has
  alpha 255 everywhere.
\<close>

record image =
  im_mode :: string
  im_size :: "int \<times> int"
  im_info_transparency :: bool
  im_px :: "int \<times> int \<Rightarrow> pixel"

text \<open>The lines the program prints, one constructor for each \<open>print\<close> of the source.\<close>

datatype line =
    CacheHit path
  | DownloadedTo string path
  | Downloaded string
  | Http429 string nat
  | HttpRetry int string nat
  | ErrorFetching string nat
  | TotalTiles nat
  | FinalImage int int
  | FinishedTile nat nat int int
  | ErrorProcessingTile "int \<times> int" exc
  | DoneCustom nat nat
  | SavedAs string

record world =
  files :: "path \<rightharpoonup> bytes"
  clock :: nat
  slept :: nat
  printed :: "line list"

text \<open>
  The environment: the network, the image decoder, and the Lanczos filter of
  \<open>Image.resize\<close> (the pixels of the resized image, given the image and the new size).
\<close>

record env =
  net :: "nat \<Rightarrow> request \<Rightarrow> reply"
  decode :: "bytes \<Rightarrow> image option"
  resample :: "image \<Rightarrow> int \<times> int \<Rightarrow> int \<times> int \<Rightarrow> pixel"

text \<open>The one reply that ends a retry loop: a response with status 200.\<close>

definition is_http_200 :: "reply \<Rightarrow> bool" where
  "is_http_200 r = (case r of Response status content \<Rightarrow> status = 200 | RequestException \<Rightarrow> False)"

definition requests_get :: "env \<Rightarrow> request \<Rightarrow> world \<Rightarrow> reply \<times> world" where
  "requests_get E req w = (net E (clock w) req, w\<lparr>clock := clock w + 1\<rparr>)"

definition time_sleep :: "nat \<Rightarrow> world \<Rightarrow> world" where
  "time_sleep d w = w\<lparr>slept := slept w + d\<rparr>"

definition print :: "line \<Rightarrow> world \<Rightarrow> world" where
  "print l w = w\<lparr>printed := printed w @ [l]\<rparr>"

definition write_file :: "path \<Rightarrow> bytes \<Rightarrow> world \<Rightarrow> world" where
  "write_file p b w = w\<lparr>files := (files w)(p \<mapsto> b)\<rparr>"

definition image_open :: "env \<Rightarrow> bytes \<Rightarrow> exc + image" where
  "image_open E b = (case decode E b of None \<Rightarrow> Inl UnidentifiedImageError | Some im \<Rightarrow> Inr im)"

text \<open>
  The \<open>while True\<close> loop of \<open>get_tile_image\<close>, lines 52-69. It has no bound, so it is
  a partial function: \<open>None\<close> is the run that never leaves the loop. An exception that is
  no \<open>RequestException\<close> (a failed \<open>Image.open\<close>) leaves the loop as \<open>Inl\<close>.
\<close>

partial_function (option) get_tile_image_loop ::
  "env \<Rightarrow> string \<Rightarrow> path \<Rightarrow> headers \<Rightarrow> nat \<Rightarrow> nat \<Rightarrow> world \<Rightarrow> ((exc + image) \<times> world) option" where
  "get_tile_image_loop E url cache_path hdrs timeout delay w =
     (case requests_get E (url, hdrs, timeout) w of
        (Response status content, w1) \<Rightarrow>
          if status = 200 then
            Some (image_open E content,
                  print (DownloadedTo url cache_path) (write_file cache_path content w1))
          else if status = 429 then
            get_tile_image_loop E url cache_path hdrs timeout delay
              (time_sleep delay (print (Http429 url delay) w1))
          else
            get_tile_image_loop E url cache_path hdrs timeout delay
              (time_sleep delay (print (HttpRetry status url delay) w1))
      | (RequestException, w1) \<Rightarrow>
          get_tile_image_loop E url cache_path hdrs timeout delay
            (time_sleep delay (print (ErrorFetching url delay) w1)))"

declare get_tile_image_loop.simps [code]

text \<open>\<open>get_tile_image\<close>, lines 46-69.\<close>

definition get_tile_image ::
  "env \<Rightarrow> string \<Rightarrow> path \<Rightarrow> headers \<Rightarrow> nat \<Rightarrow> nat \<Rightarrow> world \<Rightarrow> ((exc + image) \<times> world) option" where
  "get_tile_image E url cache_path hdrs timeout delay w =
     (case files w cache_path of
        Some b \<Rightarrow> Some (image_open E b, print (CacheHit cache_path) w)
      | None \<Rightarrow> get_tile_image_loop E url cache_path hdrs timeout delay w)"

text \<open>\<open>get_tile_image_no_cache\<close>, lines 71-87.\<close>

partial_function (option) get_tile_image_no_cache ::
  "env \<Rightarrow> string \<Rightarrow> headers \<Rightarrow> nat \<Rightarrow> nat \<Rightarrow> world \<Rightarrow> ((exc + image) \<times> world) option" where
  "get_tile_image_no_cache E url hdrs timeout delay w =
     (case requests_get E (url, hdrs, timeout) w of
        (Response status content, w1) \<Rightarrow>
          if status = 200 then
            Some (image_open E content, print (Downloaded url) w1)
          else if status = 429 then
            get_tile_image_no_cache E url hdrs timeout delay
              (time_sleep delay (print (Http429 url delay) w1))
          else
            get_tile_image_no_cache E url hdrs timeout delay
              (time_sleep delay (print (HttpRetry status url delay) w1))
      | (RequestException, w1) \<Rightarrow>
          get_tile_image_no_cache E url hdrs timeout delay
            (time_sleep delay (print (ErrorFetching url delay) w1)))"

declare get_tile_image_no_cache.simps [code]

section \<open>Compositor (src/main.py, lines 89-118)\<close>

text \<open>\<open>str\<close> on an integer: decimal digits, with a minus sign below zero.\<close>

fun digits10 :: "nat \<Rightarrow> string" where
  "digits10 n =
     (if n < 10 then [''0123456789'' ! n]
      else digits10 (n div 10) @ [''0123456789'' ! (n mod 10)])"

definition str_int :: "int \<Rightarrow> string" where
  "str_int i = (if i < 0 then ''-'' @ digits10 (nat (- i)) else digits10 (nat i))"

text \<open>
  A format string is kept as its pieces: literal text and named replacement fields.
  \<open>str.format\<close> raises \<open>KeyError\<close> on a field that has no keyword argument.
\<close>

datatype piece = Lit string | Field string

fun str_format :: "piece list \<Rightarrow> (string \<times> string) list \<Rightarrow> exc + string" where
  "str_format [] kw = Inr []"
| "str_format (Lit s # ps) kw =
     (case str_format ps kw of Inl e \<Rightarrow> Inl e | Inr r \<Rightarrow> Inr (s @ r))"
| "str_format (Field k # ps) kw =
     (case map_of kw k of
        None \<Rightarrow> Inl (KeyError k)
      | Some v \<Rightarrow> (case str_format ps kw of Inl e \<Rightarrow> Inl e | Inr r \<Rightarrow> Inr (v @ r)))"

text \<open>
  The PIL operations the compositor calls. A pixel position is inside an image when it
  is inside the rectangle of its size.
\<close>

definition in_bounds :: "int \<times> int \<Rightarrow> int \<times> int \<Rightarrow> bool" where
  "in_bounds sz p = (0 \<le> fst p \<and> fst p < fst sz \<and> 0 \<le> snd p \<and> snd p < snd sz)"

definition alpha :: "pixel \<Rightarrow> 8 word" where
  "alpha p = snd (snd (snd p))"

definition rgb :: "pixel \<Rightarrow> 8 word \<times> 8 word \<times> 8 word" where
  "rgb p = (fst p, fst (snd p), fst (snd (snd p)))"

text \<open>A PIL image object is always true in a condition (line 96, line 107).\<close>

definition image_truthy :: "image \<Rightarrow> bool" where
  "image_truthy im = True"

text \<open>\<open>Image.new(mode, size, color)\<close>; without a colour the image is black.\<close>

definition image_new :: "string \<Rightarrow> int \<times> int \<Rightarrow> 8 word \<times> 8 word \<times> 8 word \<Rightarrow> image" where
  "image_new m sz c =
     \<lparr>im_mode = m, im_size = sz, im_info_transparency = False,
      im_px = (\<lambda>p. (fst c, fst (snd c), snd (snd c), 255))\<rparr>"

text \<open>\<open>convert('RGB')\<close> drops the alpha band, \<open>convert('RGBA')\<close> keeps the pixels.\<close>

definition convert_RGB :: "image \<Rightarrow> image" where
  "convert_RGB im =
     im\<lparr>im_mode := ''RGB'',
        im_px := (\<lambda>p. (fst (im_px im p), fst (snd (im_px im p)), fst (snd (snd (im_px im p))), 255))\<rparr>"

definition convert_RGBA :: "image \<Rightarrow> image" where
  "convert_RGBA im = im\<lparr>im_mode := ''RGBA''\<rparr>"

text \<open>
  \<open>resize(size, Image.LANCZOS)\<close>, for a positive size: the image itself when it has
  that size already, otherwise an image of the new size with the filter's pixels.
\<close>

definition resize :: "env \<Rightarrow> image \<Rightarrow> int \<times> int \<Rightarrow> image" where
  "resize E im sz =
     (if im_size im = sz then im else im\<lparr>im_size := sz, im_px := resample E im sz\<rparr>)"

text \<open>
  \<open>Image.paste\<close> with a mask blends byte by byte: PIL computes
  \<open>(out * (255 - mask) + in * mask) / 255\<close> with the shift-and-add division below.
\<close>

definition div255 :: "nat \<Rightarrow> nat" where
  "div255 a = (let tmp = a + 128 in (tmp div 256 + tmp) div 256)"

definition blend :: "8 word \<Rightarrow> 8 word \<Rightarrow> 8 word \<Rightarrow> 8 word" where
  "blend m out inp =
     of_nat (div255 (unat out * (255 - unat m) + unat inp * unat m))"

text \<open>
  The blend as the specification words it, in real numbers:
  \<open>overlay * alpha + background * (1 - alpha)\<close> for one channel, with the alpha byte
  read as the fraction \<open>a / 255\<close>.
\<close>

definition spec_alpha_over :: "8 word \<Rightarrow> 8 word \<Rightarrow> 8 word \<Rightarrow> real" where
  "spec_alpha_over a background overlay =
     real (unat overlay) * (real (unat a) / 255)
       + real (unat background) * (1 - real (unat a) / 255)"

text \<open>
  \<open>dst.paste(src, (ox, oy), mask)\<close> into an RGB image, with an RGBA mask of the size of
  \<open>src\<close>: inside the pasted box, clipped to \<open>dst\<close>, each colour byte is blended with the
  mask's alpha.
\<close>

definition paste_mask :: "image \<Rightarrow> image \<Rightarrow> int \<times> int \<Rightarrow> image \<Rightarrow> image" where
  "paste_mask dst src off msk =
     dst\<lparr>im_px := (\<lambda>p.
        let q = (fst p - fst off, snd p - snd off) in
        if in_bounds (im_size src) q \<and> in_bounds (im_size dst) p then
          (let d = im_px dst p; s = im_px src q; m = alpha (im_px msk q)
           in (blend m (fst d) (fst s),
               blend m (fst (snd d)) (fst (snd s)),
               blend m (fst (snd (snd d))) (fst (snd (snd s))),
               alpha d))
        else im_px dst p)\<rparr>"

text \<open>\<open>dst.paste(src, (ox, oy))\<close> of an RGB image into an RGB image: a plain copy.\<close>

definition paste :: "image \<Rightarrow> image \<Rightarrow> int \<times> int \<Rightarrow> image" where
  "paste dst src off =
     dst\<lparr>im_px := (\<lambda>p.
        let q = (fst p - fst off, snd p - snd off) in
        if in_bounds (im_size src) q \<and> in_bounds (im_size dst) p then im_px src q
        else im_px dst p)\<rparr>"

text \<open>
  The tuple a worker receives (line 90) and the tuple it returns (line 118).
\<close>

type_synonym tile_info = "int \<times> int \<times> nat \<times> int \<times> string \<times> piece list \<times> piece list"
type_synonym tile_result = "int \<times> int \<times> image \<times> bool"

text \<open>Lines 96-99: the background as it is composited.\<close>

definition prepare_bg :: "env \<Rightarrow> int \<Rightarrow> image \<Rightarrow> image" where
  "prepare_bg E TILE_SIZE bg =
     (if image_truthy bg then resize E (convert_RGB bg) (TILE_SIZE, TILE_SIZE)
      else image_new ''RGB'' (TILE_SIZE, TILE_SIZE) (220, 220, 220))"

text \<open>Line 108: the test that sets \<open>custom_tile_used\<close>.\<close>

definition has_alpha_or_transparency :: "image \<Rightarrow> bool" where
  "has_alpha_or_transparency overlay =
     (im_mode overlay \<in> {''RGBA'', ''LA''}
      \<or> (im_mode overlay = ''P'' \<and> im_info_transparency overlay))"

text \<open>Lines 108-115: the overlay as it is pasted, converted and resized on need.\<close>

definition fit_overlay :: "env \<Rightarrow> int \<Rightarrow> image \<Rightarrow> image" where
  "fit_overlay E TILE_SIZE overlay =
     (let overlay1 = convert_RGBA overlay
      in if im_size overlay1 \<noteq> (TILE_SIZE, TILE_SIZE)
         then resize E overlay1 (TILE_SIZE, TILE_SIZE) else overlay1)"

text \<open>Lines 106-118, from the prepared background and the fetched overlay.\<close>

definition composite_overlay :: "env \<Rightarrow> int \<Rightarrow> image \<Rightarrow> image \<Rightarrow> image \<times> bool" where
  "composite_overlay E TILE_SIZE bg overlay =
     (if image_truthy overlay then
        (let custom_tile_used = has_alpha_or_transparency overlay;
             overlay2 = fit_overlay E TILE_SIZE overlay
         in (paste_mask bg overlay2 (0, 0) overlay2, custom_tile_used))
      else (bg, False))"

text \<open>
  \<open>process_and_composite_tile\<close>, lines 89-118. \<open>None\<close> is a worker that never returns
  (a fetch that retries for ever); \<open>Inl\<close> is a worker that raises.
\<close>

definition process_and_composite_tile ::
  "env \<Rightarrow> tile_info \<Rightarrow> world \<Rightarrow> ((exc + tile_result) \<times> world) option" where
  "process_and_composite_tile E tile_info w =
     (case tile_info of (x, y, zoom, TILE_SIZE, CACHE_DIR, OSM_URL, WPLACE_URL) \<Rightarrow>
       (let osm_cache_path =
              [CACHE_DIR, str_int (int zoom), ''osm'', str_int x, str_int y @ ''.png'']
        in (case str_format OSM_URL
                  [(''z'', str_int (int zoom)), (''x'', str_int x), (''y'', str_int y)] of
             Inl e \<Rightarrow> Some (Inl e, w)
           | Inr osm_url \<Rightarrow>
              (case get_tile_image E osm_url osm_cache_path
                      (Some [(''User-Agent'', ''meow meow/1.0'')]) 10 5 w of
                 None \<Rightarrow> None
               | Some (Inl e, w1) \<Rightarrow> Some (Inl e, w1)
               | Some (Inr bg0, w1) \<Rightarrow>
                  (let bg = prepare_bg E TILE_SIZE bg0
                   in (case str_format WPLACE_URL [(''x'', str_int x), (''y'', str_int y)] of
                         Inl e \<Rightarrow> Some (Inl e, w1)
                       | Inr wp_url \<Rightarrow>
                          (case get_tile_image_no_cache E wp_url None 15 5 w1 of
                             None \<Rightarrow> None
                           | Some (Inl e, w2) \<Rightarrow> Some (Inl e, w2)
                           | Some (Inr overlay, w2) \<Rightarrow>
                              (case composite_overlay E TILE_SIZE bg overlay of
                                 (bg', custom_tile_used) \<Rightarrow>
                                   Some (Inr (x, y, bg', custom_tile_used), w2)))))))))"

section \<open>Pipeline coordinator and assembler (src/main.py, lines 121-188)\<close>

text \<open>The run-level constants of the script, lines 121-141.\<close>

record params =
  cfg_min_lat :: real
  cfg_max_lat :: real
  cfg_min_lon :: real
  cfg_max_lon :: real
  cfg_zoom :: nat
  cfg_OSM_URL :: "piece list"
  cfg_WPLACE_URL :: "piece list"
  cfg_TILE_SIZE :: int
  cfg_CACHE_DIR :: string
  cfg_MAX_WORKERS :: nat

definition source_params :: params where
  "source_params =
     \<lparr>cfg_min_lat = 13.870763044489482,
      cfg_max_lat = 13.775688622735316,
      cfg_min_lon = 99.06565396552733,
      cfg_max_lon = 102.76180630927732,
      cfg_zoom = 11,
      cfg_OSM_URL = [Lit ''https://tile.openstreetmap.org/'', Field ''z'', Lit ''/'',
                     Field ''x'', Lit ''/'', Field ''y'', Lit ''.png''],
      cfg_WPLACE_URL = [Lit ''https://backend.wplace.live/files/s0/tiles/'', Field ''x'',
                        Lit ''/'', Field ''y'', Lit ''.png''],
      cfg_TILE_SIZE = 1000,
      cfg_CACHE_DIR = ''tile_cache'',
      cfg_MAX_WORKERS = 10\<rparr>"

text \<open>The state of the collection loop, and the file \<open>final_image.save\<close> writes.\<close>

record run =
  final_image :: image
  custom_found :: nat
  processed_count :: nat
  stdout :: "line list"
  saved :: "(string \<times> image) list"

text \<open>How the script ends when it does not reach its last line.\<close>

datatype stop = SystemExit string | Uncaught exc

text \<open>Whether a worker returned a result with \<open>custom_tile_used\<close> set.\<close>

definition custom_used_of :: "((exc + tile_result) \<times> world) option \<Rightarrow> bool" where
  "custom_used_of res =
     (case res of
        Some (Inr (x, y, processed_tile, custom_used), w) \<Rightarrow> custom_used
      | Some (Inl e, w) \<Rightarrow> False
      | None \<Rightarrow> False)"

text \<open>Line 167.\<close>

definition make_tasks :: "params \<Rightarrow> (int \<times> int) list \<Rightarrow> tile_info list" where
  "make_tasks P tiles =
     map (\<lambda>(x, y). (x, y, cfg_zoom P, cfg_TILE_SIZE P, cfg_CACHE_DIR P,
                      cfg_OSM_URL P, cfg_WPLACE_URL P)) tiles"

text \<open>
  Lines 169-171. The workers run concurrently; the model gives each future the result of
  its worker and hands the futures to the loop in the order \<open>order\<close> in which they
  complete, any arrangement of the submitted tasks. \<open>as_completed\<close> ends only when
  every future has completed, so one worker that never returns makes the loop, and the
  run, never end: \<open>None\<close>.
\<close>

fun as_completed ::
  "(tile_info \<Rightarrow> ((exc + tile_result) \<times> world) option) \<Rightarrow> tile_info list
     \<Rightarrow> (tile_info \<times> (exc + tile_result)) list option" where
  "as_completed fut [] = Some []"
| "as_completed fut (t # ts) =
     (case fut t of
        None \<Rightarrow> None
      | Some (r, w') \<Rightarrow>
         (case as_completed fut ts of None \<Rightarrow> None | Some rs \<Rightarrow> Some ((t, r) # rs)))"

text \<open>Lines 171-181: the body of the collection loop, over the completed futures.\<close>

fun collect ::
  "int \<Rightarrow> int \<Rightarrow> int \<Rightarrow> nat \<Rightarrow> run \<Rightarrow> (tile_info \<times> (exc + tile_result)) list \<Rightarrow> run" where
  "collect min_x min_y TILE_SIZE ntiles st [] = st"
| "collect min_x min_y TILE_SIZE ntiles st ((tile_info, r) # rest) =
     (let st1 = st\<lparr>processed_count := processed_count st + 1\<rparr>
      in case r of
           Inr (x, y, processed_tile, custom_used) \<Rightarrow>
             (let st2 = st1\<lparr>stdout := stdout st1 @ [FinishedTile (processed_count st1) ntiles x y]\<rparr>;
                  st3 = (if custom_used then st2\<lparr>custom_found := custom_found st2 + 1\<rparr> else st2);
                  st4 = st3\<lparr>final_image :=
                          paste (final_image st3) processed_tile
                            ((x - min_x) * TILE_SIZE, (y - min_y) * TILE_SIZE)\<rparr>
              in collect min_x min_y TILE_SIZE ntiles st4 rest)
         | Inl exc \<Rightarrow>
             collect min_x min_y TILE_SIZE ntiles
               (st1\<lparr>stdout := stdout st1 @
                       [ErrorProcessingTile (fst tile_info, fst (snd tile_info)) exc]\<rparr>) rest)"

text \<open>
  The rectangle of tile \<open>(x, y)\<close> in the canvas: the positions that line 178 pastes a
  tile of the tile size over, with top-left corner
  \<open>((x - min_x) * TILE_SIZE, (y - min_y) * TILE_SIZE)\<close>.
\<close>

definition in_tile_box :: "int \<Rightarrow> int \<Rightarrow> int \<Rightarrow> int \<times> int \<Rightarrow> int \<times> int \<Rightarrow> bool" where
  "in_tile_box min_x min_y TILE_SIZE tile p =
     in_bounds (TILE_SIZE, TILE_SIZE)
       (fst p - (fst tile - min_x) * TILE_SIZE, snd p - (snd tile - min_y) * TILE_SIZE)"

text \<open>
  The script, lines 148-188. \<open>target_name\<close> is the command-line argument and
  \<open>date_str\<close> the formatted time of line 184; \<open>ws t\<close> is the world the worker of task
  \<open>t\<close> runs in.
\<close>

definition main ::
  "params \<Rightarrow> string \<Rightarrow> string \<Rightarrow> env \<Rightarrow> (tile_info \<Rightarrow> world) \<Rightarrow> tile_info list
     \<Rightarrow> (stop + run) option" where
  "main P target_name date_str E ws order =
     (case get_tiles_in_bbox (cfg_min_lat P) (cfg_max_lat P) (cfg_min_lon P) (cfg_max_lon P)
             (cfg_zoom P) of
        Inl e \<Rightarrow> Some (Inl (Uncaught e))
      | Inr tiles \<Rightarrow>
          if tiles = [] then Some (Inl (SystemExit ''no tiles found!''))
          else
            (let x_vals = map fst tiles;
                 y_vals = map snd tiles;
                 min_x = py_min x_vals; max_x = py_max x_vals;
                 min_y = py_min y_vals; max_y = py_max y_vals;
                 cols = max_x - min_x + 1;
                 rows = max_y - min_y + 1;
                 st0 = \<lparr>final_image =
                          image_new ''RGB'' (cols * cfg_TILE_SIZE P, rows * cfg_TILE_SIZE P)
                            (0, 0, 0),
                        custom_found = 0, processed_count = 0,
                        stdout = [TotalTiles (length tiles),
                                  FinalImage (cols * cfg_TILE_SIZE P) (rows * cfg_TILE_SIZE P)],
                        saved = []\<rparr>
             in (case as_completed (\<lambda>t. process_and_composite_tile E t (ws t)) order of
                   None \<Rightarrow> None
                 | Some completed \<Rightarrow>
                    (let st = collect min_x min_y (cfg_TILE_SIZE P) (length tiles) st0 completed;
                         output = target_name @ ''_'' @ date_str @ ''.png''
                     in Some (Inr (st\<lparr>stdout := stdout st @
                                          [DoneCustom (custom_found st) (length tiles),
                                           SavedAs output],
                                        saved := [(output, final_image st)]\<rparr>))))))"

section \<open>Notions for the statements about the collection loop\<close>

text \<open>
  For a completed future, as the loop gets it: the tile coordinate of its task, whether
  it returned with \<open>custom_used\<close> set, whether its paste at line 178 covers a position
  \<open>p\<close> of the canvas, and what a result of \<open>process_and_composite_tile\<close> always
  satisfies (the coordinate of its task, a tile of the tile size).
\<close>

definition coords_of :: "tile_info \<times> (exc + tile_result) \<Rightarrow> int \<times> int" where
  "coords_of a = (fst (fst a), fst (snd (fst a)))"

definition flag_of :: "tile_info \<times> (exc + tile_result) \<Rightarrow> bool" where
  "flag_of a = (case snd a of Inl e \<Rightarrow> False | Inr (x, y, im, f) \<Rightarrow> f)"

definition touches :: "int \<Rightarrow> int \<Rightarrow> int \<Rightarrow> int \<times> int \<Rightarrow> tile_info \<times> (exc + tile_result) \<Rightarrow> bool" where
  "touches mx my T p a =
     (case snd a of
        Inl e \<Rightarrow> False
      | Inr (x, y, im, f) \<Rightarrow>
          in_bounds (im_size im) (fst p - (x - mx) * T, snd p - (y - my) * T))"

definition wf_result :: "int \<Rightarrow> tile_info \<times> (exc + tile_result) \<Rightarrow> bool" where
  "wf_result T a =
     (case snd a of
        Inl e \<Rightarrow> True
      | Inr (x, y, im, f) \<Rightarrow> coords_of a = (x, y) \<and> im_size im = (T, T))"

section \<open>A small concrete run\<close>

text \<open>
  Concrete inputs on which the definitions above are evaluated: a decoder for three
  one- or two-byte "files", a nearest-neighbour filter, and a network that answers a
  request to the background server with 429, then with a transport error, then with a
  background tile, and a request to the overlay server with a transparent overlay for
  the tile (0, 1) and with bytes that are no image for every other tile.
\<close>

definition example_bg :: image where
  "example_bg =
     \<lparr>im_mode = ''RGB'', im_size = (2, 2), im_info_transparency = False,
      im_px = (\<lambda>p. (10, 20, 30, 255))\<rparr>"

definition example_overlay :: "8 word \<Rightarrow> image" where
  "example_overlay a =
     \<lparr>im_mode = ''RGBA'', im_size = (2, 2), im_info_transparency = False,
      im_px = (\<lambda>p. (200, 100, 50, a))\<rparr>"

definition example_decode :: "bytes \<Rightarrow> image option" where
  "example_decode b =
     (if b = [0] then Some example_bg
      else if length b = 2 \<and> hd b = 1 then Some (example_overlay (b ! 1))
      else if b = [2] then Some (example_bg\<lparr>im_size := (4, 4)\<rparr>)
      else None)"

definition example_net :: "nat \<Rightarrow> request \<Rightarrow> reply" where
  "example_net k req =
     (if take 1 (fst req) = ''o'' then
        (if k = 0 then Response 429 []
         else if k = 1 then RequestException
         else Response 200 [0])
      else if fst req = ''w/0/1'' then Response 200 [1, 0]
      else Response 200 [7])"

definition example_env :: env where
  "example_env =
     \<lparr>net = example_net, decode = example_decode,
      resample = (\<lambda>im sz p.
         im_px im (fst p * fst (im_size im) div fst sz, snd p * snd (im_size im) div snd sz))\<rparr>"

definition example_world :: world where
  "example_world = \<lparr>files = Map.empty, clock = 0, slept = 0, printed = []\<rparr>"

definition example_params :: params where
  "example_params =
     \<lparr>cfg_min_lat = 0, cfg_max_lat = 0, cfg_min_lon = - 90, cfg_max_lon = 90,
      cfg_zoom = 1,
      cfg_OSM_URL = [Lit ''o/'', Field ''z'', Lit ''/'', Field ''x'', Lit ''/'', Field ''y''],
      cfg_WPLACE_URL = [Lit ''w/'', Field ''x'', Lit ''/'', Field ''y''],
      cfg_TILE_SIZE = 2,
      cfg_CACHE_DIR = ''c'',
      cfg_MAX_WORKERS = 10\<rparr>"

definition example_task :: "int \<times> int \<Rightarrow> tile_info" where
  "example_task t = (fst t, snd t, cfg_zoom example_params, cfg_TILE_SIZE example_params,
     cfg_CACHE_DIR example_params, cfg_OSM_URL example_params, cfg_WPLACE_URL example_params)"

section \<open>Properties of the projection\<close>

subsection \<open>The projection is defined between the poles\<close>






lemma clamp_tile_bounds: "0 \<le> clamp_tile (2 ^ z) v \<and> clamp_tile (2 ^ z) v \<le> 2 ^ z - 1"
proof -
  have "(1::int) \<le> 2 ^ z" by simp
  then show ?thesis unfolding clamp_tile_def by auto
qed

lemma clamp_tile_mono: "u \<le> v \<Longrightarrow> clamp_tile n u \<le> clamp_tile n v"
  unfolding clamp_tile_def by auto

lemma fold_min_le: "fold min xs (a::'a::linorder) \<le> a"
proof (induction xs arbitrary: a)
  case Nil
  show ?case by simp
next
  case (Cons x xs)
  have "fold min xs (min x a) \<le> min x a" by (rule Cons.IH)
  also have "\<dots> \<le> a" by simp
  finally show ?case by simp
qed

lemma fold_max_ge: "(a::'a::linorder) \<le> fold max xs a"
proof (induction xs arbitrary: a)
  case Nil
  show ?case by simp
next
  case (Cons x xs)
  have "a \<le> max x a" by simp
  also have "\<dots> \<le> fold max xs (max x a)" by (rule Cons.IH)
  finally show ?case by simp
qed

lemma py_min_le_py_max: "xs \<noteq> [] \<Longrightarrow> py_min xs \<le> py_max (xs::'a::linorder list)"
  by (cases xs) (auto intro: order_trans [OF fold_min_le fold_max_ge])

lemma floor_min_le_ceiling_max:
  "xs \<noteq> [] \<Longrightarrow> \<lfloor>py_min xs\<rfloor> \<le> \<lceil>py_max (xs::real list)\<rceil>"
proof -
  assume "xs \<noteq> []"
  then have "py_min xs \<le> py_max xs" by (rule py_min_le_py_max)
  then have "\<lfloor>py_min xs\<rfloor> \<le> \<lfloor>py_max xs\<rfloor>" by (rule floor_mono)
  also have "\<dots> \<le> \<lceil>py_max xs\<rceil>" by (rule floor_le_ceiling)
  finally show ?thesis .
qed

lemma tiles_of_range_nonempty:
  "sx \<le> ex \<Longrightarrow> sy \<le> ey \<Longrightarrow> tiles_of_range (sx, ex, sy, ey) \<noteq> []"
  by (simp add: tiles_of_range_def upto.simps)

lemma tile_range_eq:
  "tile_range a b c d z =
     (case lat_lon_to_tile (max a b) (min c d) z of Inl e \<Rightarrow> Inl e | Inr nw \<Rightarrow>
     (case lat_lon_to_tile (max a b) (max c d) z of Inl e \<Rightarrow> Inl e | Inr ne \<Rightarrow>
     (case lat_lon_to_tile (min a b) (min c d) z of Inl e \<Rightarrow> Inl e | Inr sw \<Rightarrow>
     (case lat_lon_to_tile (min a b) (max c d) z of Inl e \<Rightarrow> Inl e | Inr se \<Rightarrow>
        Inr (clamp_tile (2 ^ z) \<lfloor>py_min (map fst [nw, ne, sw, se])\<rfloor>,
             clamp_tile (2 ^ z) \<lceil>py_max (map fst [nw, ne, sw, se])\<rceil>,
             clamp_tile (2 ^ z) \<lfloor>py_min (map snd [nw, ne, sw, se])\<rfloor>,
             clamp_tile (2 ^ z) \<lceil>py_max (map snd [nw, ne, sw, se])\<rceil>)))))"
proof -
  have 1: "(if a > b then (b, a) else (a, b)) = (min a b, max a b)" by auto
  have 2: "(if c > d then (d, c) else (c, d)) = (min c d, max c d)" by auto
  show ?thesis unfolding tile_range_def 1 2 by (simp only: Let_def prod.case)
qed

lemma four_corners_Inr:
  assumes "(case A of Inl e \<Rightarrow> Inl e | Inr nw \<Rightarrow>
           (case B of Inl e \<Rightarrow> Inl e | Inr ne \<Rightarrow>
           (case C of Inl e \<Rightarrow> Inl e | Inr sw \<Rightarrow>
           (case D of Inl e \<Rightarrow> Inl e | Inr se \<Rightarrow> Inr (f nw ne sw se))))) = Inr r"
  shows "\<exists>nw ne sw se. r = f nw ne sw se"
  using assms by (cases A; cases B; cases C; cases D) auto

lemma tile_range_Inr:
  assumes "tile_range a b c d z = Inr (sx, ex, sy, ey)"
  shows "0 \<le> sx \<and> sx \<le> ex \<and> ex \<le> 2 ^ z - 1 \<and> 0 \<le> sy \<and> sy \<le> ey \<and> ey \<le> 2 ^ z - 1"
proof -
  have "\<exists>(nw::real \<times> real) ne sw se. (sx, ex, sy, ey) =
       (clamp_tile (2 ^ z) \<lfloor>py_min (map fst [nw, ne, sw, se])\<rfloor>,
        clamp_tile (2 ^ z) \<lceil>py_max (map fst [nw, ne, sw, se])\<rceil>,
        clamp_tile (2 ^ z) \<lfloor>py_min (map snd [nw, ne, sw, se])\<rfloor>,
        clamp_tile (2 ^ z) \<lceil>py_max (map snd [nw, ne, sw, se])\<rceil>)"
    using assms [unfolded tile_range_eq]
    by (rule four_corners_Inr [where f = "\<lambda>(nw::real \<times> real) ne sw se.
       (clamp_tile (2 ^ z) \<lfloor>py_min (map fst [nw, ne, sw, se])\<rfloor>,
        clamp_tile (2 ^ z) \<lceil>py_max (map fst [nw, ne, sw, se])\<rceil>,
        clamp_tile (2 ^ z) \<lfloor>py_min (map snd [nw, ne, sw, se])\<rfloor>,
        clamp_tile (2 ^ z) \<lceil>py_max (map snd [nw, ne, sw, se])\<rceil>)"])
  then obtain nw ne sw se :: "real \<times> real" where
    "(sx, ex, sy, ey) =
       (clamp_tile (2 ^ z) \<lfloor>py_min (map fst [nw, ne, sw, se])\<rfloor>,
        clamp_tile (2 ^ z) \<lceil>py_max (map fst [nw, ne, sw, se])\<rceil>,
        clamp_tile (2 ^ z) \<lfloor>py_min (map snd [nw, ne, sw, se])\<rfloor>,
        clamp_tile (2 ^ z) \<lceil>py_max (map snd [nw, ne, sw, se])\<rceil>)"
    by blast
  then have
    r: "sx = clamp_tile (2 ^ z) \<lfloor>py_min (map fst [nw, ne, sw, se])\<rfloor>"
       "ex = clamp_tile (2 ^ z) \<lceil>py_max (map fst [nw, ne, sw, se])\<rceil>"
       "sy = clamp_tile (2 ^ z) \<lfloor>py_min (map snd [nw, ne, sw, se])\<rfloor>"
       "ey = clamp_tile (2 ^ z) \<lceil>py_max (map snd [nw, ne, sw, se])\<rceil>"
    by (simp_all only: prod.inject)
  have "sx \<le> ex" unfolding r
    by (rule clamp_tile_mono, rule floor_min_le_ceiling_max) simp
  moreover have "sy \<le> ey" unfolding r
    by (rule clamp_tile_mono, rule floor_min_le_ceiling_max) simp
  ultimately show ?thesis using clamp_tile_bounds [of z] unfolding r by blast
qed


subsection \<open>Numeric bounds for the 85 degree limit\<close>














lemma get_tiles_in_bbox_nonempty:
  assumes "get_tiles_in_bbox a b c d z = Inr tiles"
  shows "tiles \<noteq> []"
proof (cases "tile_range a b c d z")
  case (Inl e)
  with assms show ?thesis by (simp add: get_tiles_in_bbox_def)
next
  case (Inr r)
  obtain sx ex sy ey where r: "r = (sx, ex, sy, ey)" by (cases r) auto
  have "sx \<le> ex" "sy \<le> ey" using tile_range_Inr [OF Inr [unfolded r]] by simp_all
  then have "tiles_of_range r \<noteq> []" unfolding r by (rule tiles_of_range_nonempty)
  with assms Inr show ?thesis by (simp add: get_tiles_in_bbox_def)
qed

lemma main_cases:
  "main P target_name date_str E ws order =
     (case get_tiles_in_bbox (cfg_min_lat P) (cfg_max_lat P) (cfg_min_lon P) (cfg_max_lon P)
             (cfg_zoom P) of
        Inl e \<Rightarrow> Some (Inl (Uncaught e))
      | Inr tiles \<Rightarrow>
          (case as_completed (\<lambda>t. process_and_composite_tile E t (ws t)) order of
             None \<Rightarrow> None
           | Some completed \<Rightarrow>
               Some (Inr
                 (let st = collect (py_min (map fst tiles)) (py_min (map snd tiles))
                             (cfg_TILE_SIZE P) (length tiles)
                             \<lparr>final_image =
                                image_new ''RGB''
                                  ((py_max (map fst tiles) - py_min (map fst tiles) + 1) * cfg_TILE_SIZE P,
                                   (py_max (map snd tiles) - py_min (map snd tiles) + 1) * cfg_TILE_SIZE P)
                                  (0, 0, 0),
                              custom_found = 0, processed_count = 0,
                              stdout = [TotalTiles (length tiles),
                                        FinalImage
                                          ((py_max (map fst tiles) - py_min (map fst tiles) + 1) * cfg_TILE_SIZE P)
                                          ((py_max (map snd tiles) - py_min (map snd tiles) + 1) * cfg_TILE_SIZE P)],
                              saved = []\<rparr> completed
                  in st\<lparr>stdout := stdout st @
                            [DoneCustom (custom_found st) (length tiles),
                             SavedAs (target_name @ ''_'' @ date_str @ ''.png'')],
                          saved := [(target_name @ ''_'' @ date_str @ ''.png'', final_image st)]\<rparr>))))"
proof (cases "get_tiles_in_bbox (cfg_min_lat P) (cfg_max_lat P) (cfg_min_lon P) (cfg_max_lon P)
             (cfg_zoom P)")
  case (Inl e)
  then show ?thesis by (simp add: main_def)
next
  case (Inr tiles)
  then have "tiles \<noteq> []" by (rule get_tiles_in_bbox_nonempty)
  with Inr show ?thesis by (simp add: main_def Let_def split: option.splits)
qed




subsection \<open>The claims about the projection\<close>








section \<open>Properties of the fetcher\<close>

subsection \<open>The retry loop of the uncached fetch\<close>

lemma no_cache_ok_step:
  assumes "net E (clock w) (url, hdrs, timeout) = Response 200 c"
  shows "get_tile_image_no_cache E url hdrs timeout delay w =
           Some (image_open E c, print (Downloaded url) (w\<lparr>clock := clock w + 1\<rparr>))"
  using assms
  by (subst get_tile_image_no_cache.simps) (simp add: requests_get_def)

lemma no_cache_fail_step:
  assumes "\<not> is_http_200 (net E (clock w) (url, hdrs, timeout))"
  shows "\<exists>w1. get_tile_image_no_cache E url hdrs timeout delay w =
               get_tile_image_no_cache E url hdrs timeout delay w1
             \<and> clock w1 = clock w + 1 \<and> slept w1 = slept w + delay \<and> files w1 = files w"
proof (cases "net E (clock w) (url, hdrs, timeout)")
  case (Response status content)
  with assms have ne: "status \<noteq> 200" by (simp add: is_http_200_def)
  show ?thesis
  proof (cases "status = 429")
    case True
    have "get_tile_image_no_cache E url hdrs timeout delay w =
            get_tile_image_no_cache E url hdrs timeout delay
              (time_sleep delay (print (Http429 url delay) (w\<lparr>clock := clock w + 1\<rparr>)))"
      using Response True
      by (subst get_tile_image_no_cache.simps) (simp add: requests_get_def)
    then show ?thesis
      by (intro exI conjI, assumption) (simp_all add: time_sleep_def print_def)
  next
    case False
    have "get_tile_image_no_cache E url hdrs timeout delay w =
            get_tile_image_no_cache E url hdrs timeout delay
              (time_sleep delay (print (HttpRetry status url delay) (w\<lparr>clock := clock w + 1\<rparr>)))"
      using Response False ne
      by (subst get_tile_image_no_cache.simps) (simp add: requests_get_def)
    then show ?thesis
      by (intro exI conjI, assumption) (simp_all add: time_sleep_def print_def)
  qed
next
  case RequestException
  have "get_tile_image_no_cache E url hdrs timeout delay w =
          get_tile_image_no_cache E url hdrs timeout delay
            (time_sleep delay (print (ErrorFetching url delay) (w\<lparr>clock := clock w + 1\<rparr>)))"
    using RequestException
    by (subst get_tile_image_no_cache.simps) (simp add: requests_get_def)
  then show ?thesis
    by (intro exI conjI, assumption) (simp_all add: time_sleep_def print_def)
qed

lemma no_cache_after_failures:
  assumes "\<forall>j<n. \<not> is_http_200 (net E (clock w + j) (url, hdrs, timeout))"
  shows "\<exists>w1. get_tile_image_no_cache E url hdrs timeout delay w =
               get_tile_image_no_cache E url hdrs timeout delay w1
             \<and> clock w1 = clock w + n \<and> slept w1 = slept w + n * delay \<and> files w1 = files w"
  using assms
proof (induction n arbitrary: w)
  case 0
  show ?case by (intro exI [of _ w]) simp
next
  case (Suc n)
  from Suc.prems have "\<not> is_http_200 (net E (clock w) (url, hdrs, timeout))"
    by (metis add.right_neutral zero_less_Suc)
  from no_cache_fail_step [OF this, of delay] obtain w1 where
    w1: "get_tile_image_no_cache E url hdrs timeout delay w =
           get_tile_image_no_cache E url hdrs timeout delay w1"
        "clock w1 = clock w + 1" "slept w1 = slept w + delay" "files w1 = files w"
    by blast
  have "\<forall>j<n. \<not> is_http_200 (net E (clock w1 + j) (url, hdrs, timeout))"
  proof (intro allI impI)
    fix j assume "j < n"
    then have "Suc j < Suc n" by simp
    with Suc.prems have "\<not> is_http_200 (net E (clock w + Suc j) (url, hdrs, timeout))" by blast
    then show "\<not> is_http_200 (net E (clock w1 + j) (url, hdrs, timeout))" by (simp add: w1)
  qed
  from Suc.IH [OF this] obtain w2 where
    w2: "get_tile_image_no_cache E url hdrs timeout delay w1 =
           get_tile_image_no_cache E url hdrs timeout delay w2"
        "clock w2 = clock w1 + n" "slept w2 = slept w1 + n * delay" "files w2 = files w1"
    by blast
  show ?case
    by (intro exI [of _ w2]) (simp add: w1 w2)
qed

lemma no_cache_returns:
  assumes "\<forall>j<n. \<not> is_http_200 (net E (clock w + j) (url, hdrs, timeout))"
    and "net E (clock w + n) (url, hdrs, timeout) = Response 200 c"
  shows "\<exists>w'. get_tile_image_no_cache E url hdrs timeout delay w = Some (image_open E c, w')
             \<and> clock w' = clock w + n + 1 \<and> slept w' = slept w + n * delay \<and> files w' = files w"
proof -
  from no_cache_after_failures [OF assms(1), of delay] obtain w1 where
    w1: "get_tile_image_no_cache E url hdrs timeout delay w =
           get_tile_image_no_cache E url hdrs timeout delay w1"
        "clock w1 = clock w + n" "slept w1 = slept w + n * delay" "files w1 = files w"
    by blast
  have "net E (clock w1) (url, hdrs, timeout) = Response 200 c" using assms(2) w1 by simp
  from no_cache_ok_step [OF this, of delay] show ?thesis
    by (intro exI [of _ "print (Downloaded url) (w1\<lparr>clock := clock w1 + 1\<rparr>)"])
       (simp add: w1 print_def)
qed

lemma no_cache_Some_has_200:
  assumes "get_tile_image_no_cache E url hdrs timeout delay w = Some y"
  shows "\<exists>j. is_http_200 (net E (clock w + j) (url, hdrs, timeout))"
proof (rule get_tile_image_no_cache.raw_induct
    [where P = "\<lambda>E url hdrs timeout delay w y.
                  \<exists>j. is_http_200 (net E (clock w + j) (url, hdrs, timeout))",
     OF _ assms], goal_cases)
  case (1 f E1 u h t d w1 y1)
  show ?case
  proof (cases "is_http_200 (net E1 (clock w1) (u, h, t))")
    case True
    then show ?thesis by (intro exI [of _ 0]) simp
  next
    case False
    then obtain l where
      "f E1 u h t d (time_sleep d (print l (w1\<lparr>clock := clock w1 + 1\<rparr>))) = Some y1"
      using 1(2)
      by (auto simp: requests_get_def is_http_200_def split: reply.splits if_splits)
    from 1(1) [OF this] obtain j where
      "is_http_200 (net E1 (clock w1 + 1 + j) (u, h, t))"
      by (auto simp: time_sleep_def print_def)
    then show ?thesis by (intro exI [of _ "Suc j"]) simp
  qed
qed

lemma no_cache_never:
  assumes "\<forall>j. \<not> is_http_200 (net E (clock w + j) (url, hdrs, timeout))"
  shows "get_tile_image_no_cache E url hdrs timeout delay w = None"
proof (cases "get_tile_image_no_cache E url hdrs timeout delay w")
  case None
  then show ?thesis .
next
  case (Some y)
  from no_cache_Some_has_200 [OF this] assms show ?thesis by blast
qed

lemma no_cache_only_200:
  assumes "get_tile_image_no_cache E url hdrs timeout delay w = Some (r, w')"
  shows "\<exists>n c. (\<forall>j<n. \<not> is_http_200 (net E (clock w + j) (url, hdrs, timeout)))
           \<and> net E (clock w + n) (url, hdrs, timeout) = Response 200 c
           \<and> r = image_open E c
           \<and> clock w' = clock w + n + 1 \<and> slept w' = slept w + n * delay \<and> files w' = files w"
proof -
  let ?ok = "\<lambda>j. is_http_200 (net E (clock w + j) (url, hdrs, timeout))"
  from no_cache_Some_has_200 [OF assms] obtain j where "?ok j" by blast
  define n where "n = (LEAST j. ?ok j)"
  have n: "?ok n" unfolding n_def using \<open>?ok j\<close> by (rule LeastI)
  have before: "\<forall>j<n. \<not> ?ok j" unfolding n_def using not_less_Least by blast
  from n obtain c where c: "net E (clock w + n) (url, hdrs, timeout) = Response 200 c"
    by (auto simp: is_http_200_def split: reply.splits)
  from no_cache_returns [OF before c, of delay] assms show ?thesis
    using before c by (intro exI [of _ n] exI [of _ c]) auto
qed

subsection \<open>The retry loop of the cached fetch\<close>

lemma loop_ok_step:
  assumes "net E (clock w) (url, hdrs, timeout) = Response 200 c"
  shows "get_tile_image_loop E url cache_path hdrs timeout delay w =
           Some (image_open E c,
                 print (DownloadedTo url cache_path)
                   (write_file cache_path c (w\<lparr>clock := clock w + 1\<rparr>)))"
  using assms
  by (subst get_tile_image_loop.simps) (simp add: requests_get_def)

lemma loop_fail_step:
  assumes "\<not> is_http_200 (net E (clock w) (url, hdrs, timeout))"
  shows "\<exists>w1. get_tile_image_loop E url cache_path hdrs timeout delay w =
               get_tile_image_loop E url cache_path hdrs timeout delay w1
             \<and> clock w1 = clock w + 1 \<and> slept w1 = slept w + delay \<and> files w1 = files w"
proof (cases "net E (clock w) (url, hdrs, timeout)")
  case (Response status content)
  with assms have ne: "status \<noteq> 200" by (simp add: is_http_200_def)
  show ?thesis
  proof (cases "status = 429")
    case True
    have "get_tile_image_loop E url cache_path hdrs timeout delay w =
            get_tile_image_loop E url cache_path hdrs timeout delay
              (time_sleep delay (print (Http429 url delay) (w\<lparr>clock := clock w + 1\<rparr>)))"
      using Response True
      by (subst get_tile_image_loop.simps) (simp add: requests_get_def)
    then show ?thesis
      by (intro exI conjI, assumption) (simp_all add: time_sleep_def print_def)
  next
    case False
    have "get_tile_image_loop E url cache_path hdrs timeout delay w =
            get_tile_image_loop E url cache_path hdrs timeout delay
              (time_sleep delay (print (HttpRetry status url delay) (w\<lparr>clock := clock w + 1\<rparr>)))"
      using Response False ne
      by (subst get_tile_image_loop.simps) (simp add: requests_get_def)
    then show ?thesis
      by (intro exI conjI, assumption) (simp_all add: time_sleep_def print_def)
  qed
next
  case RequestException
  have "get_tile_image_loop E url cache_path hdrs timeout delay w =
          get_tile_image_loop E url cache_path hdrs timeout delay
            (time_sleep delay (print (ErrorFetching url delay) (w\<lparr>clock := clock w + 1\<rparr>)))"
    using RequestException
    by (subst get_tile_image_loop.simps) (simp add: requests_get_def)
  then show ?thesis
    by (intro exI conjI, assumption) (simp_all add: time_sleep_def print_def)
qed

lemma loop_after_failures:
  assumes "\<forall>j<n. \<not> is_http_200 (net E (clock w + j) (url, hdrs, timeout))"
  shows "\<exists>w1. get_tile_image_loop E url cache_path hdrs timeout delay w =
               get_tile_image_loop E url cache_path hdrs timeout delay w1
             \<and> clock w1 = clock w + n \<and> slept w1 = slept w + n * delay \<and> files w1 = files w"
  using assms
proof (induction n arbitrary: w)
  case 0
  show ?case by (intro exI [of _ w]) simp
next
  case (Suc n)
  from Suc.prems have "\<not> is_http_200 (net E (clock w) (url, hdrs, timeout))"
    by (metis add.right_neutral zero_less_Suc)
  from loop_fail_step [OF this, where delay = delay and cache_path = cache_path] obtain w1 where
    w1: "get_tile_image_loop E url cache_path hdrs timeout delay w =
           get_tile_image_loop E url cache_path hdrs timeout delay w1"
        "clock w1 = clock w + 1" "slept w1 = slept w + delay" "files w1 = files w"
    by blast
  have "\<forall>j<n. \<not> is_http_200 (net E (clock w1 + j) (url, hdrs, timeout))"
  proof (intro allI impI)
    fix j assume "j < n"
    then have "Suc j < Suc n" by simp
    with Suc.prems have "\<not> is_http_200 (net E (clock w + Suc j) (url, hdrs, timeout))" by blast
    then show "\<not> is_http_200 (net E (clock w1 + j) (url, hdrs, timeout))" by (simp add: w1)
  qed
  from Suc.IH [OF this] obtain w2 where
    w2: "get_tile_image_loop E url cache_path hdrs timeout delay w1 =
           get_tile_image_loop E url cache_path hdrs timeout delay w2"
        "clock w2 = clock w1 + n" "slept w2 = slept w1 + n * delay" "files w2 = files w1"
    by blast
  show ?case
    by (intro exI [of _ w2]) (simp add: w1 w2)
qed

lemma loop_returns:
  assumes "\<forall>j<n. \<not> is_http_200 (net E (clock w + j) (url, hdrs, timeout))"
    and "net E (clock w + n) (url, hdrs, timeout) = Response 200 c"
  shows "\<exists>w'. get_tile_image_loop E url cache_path hdrs timeout delay w = Some (image_open E c, w')
             \<and> clock w' = clock w + n + 1 \<and> slept w' = slept w + n * delay
             \<and> files w' = (files w)(cache_path \<mapsto> c)"
proof -
  from loop_after_failures [OF assms(1), where delay = delay and cache_path = cache_path] obtain w1 where
    w1: "get_tile_image_loop E url cache_path hdrs timeout delay w =
           get_tile_image_loop E url cache_path hdrs timeout delay w1"
        "clock w1 = clock w + n" "slept w1 = slept w + n * delay" "files w1 = files w"
    by blast
  have "net E (clock w1) (url, hdrs, timeout) = Response 200 c" using assms(2) w1 by simp
  from loop_ok_step [OF this, where delay = delay and cache_path = cache_path] show ?thesis
    by (intro exI [of _ "print (DownloadedTo url cache_path)
                        (write_file cache_path c (w1\<lparr>clock := clock w1 + 1\<rparr>))"])
       (simp add: w1 print_def write_file_def)
qed

lemma loop_Some_has_200:
  assumes "get_tile_image_loop E url cache_path hdrs timeout delay w = Some y"
  shows "\<exists>j. is_http_200 (net E (clock w + j) (url, hdrs, timeout))"
proof (rule get_tile_image_loop.raw_induct
    [where P = "\<lambda>E url cache_path hdrs timeout delay w y.
                  \<exists>j. is_http_200 (net E (clock w + j) (url, hdrs, timeout))",
     OF _ assms], goal_cases)
  case (1 f E1 u cp h t d w1 y1)
  show ?case
  proof (cases "is_http_200 (net E1 (clock w1) (u, h, t))")
    case True
    then show ?thesis by (intro exI [of _ 0]) simp
  next
    case False
    then obtain l where
      "f E1 u cp h t d (time_sleep d (print l (w1\<lparr>clock := clock w1 + 1\<rparr>))) = Some y1"
      using 1(2)
      by (auto simp: requests_get_def is_http_200_def split: reply.splits if_splits)
    from 1(1) [OF this] obtain j where
      "is_http_200 (net E1 (clock w1 + 1 + j) (u, h, t))"
      by (auto simp: time_sleep_def print_def)
    then show ?thesis by (intro exI [of _ "Suc j"]) simp
  qed
qed

lemma loop_never:
  assumes "\<forall>j. \<not> is_http_200 (net E (clock w + j) (url, hdrs, timeout))"
  shows "get_tile_image_loop E url cache_path hdrs timeout delay w = None"
proof (cases "get_tile_image_loop E url cache_path hdrs timeout delay w")
  case None
  then show ?thesis .
next
  case (Some y)
  from loop_Some_has_200 [OF this] assms show ?thesis by blast
qed

lemma loop_only_200:
  assumes "get_tile_image_loop E url cache_path hdrs timeout delay w = Some (r, w')"
  shows "\<exists>n c. (\<forall>j<n. \<not> is_http_200 (net E (clock w + j) (url, hdrs, timeout)))
           \<and> net E (clock w + n) (url, hdrs, timeout) = Response 200 c
           \<and> r = image_open E c
           \<and> clock w' = clock w + n + 1 \<and> slept w' = slept w + n * delay
           \<and> files w' = (files w)(cache_path \<mapsto> c)"
proof -
  let ?ok = "\<lambda>j. is_http_200 (net E (clock w + j) (url, hdrs, timeout))"
  from loop_Some_has_200 [OF assms] obtain j where "?ok j" by blast
  define n where "n = (LEAST j. ?ok j)"
  have n: "?ok n" unfolding n_def using \<open>?ok j\<close> by (rule LeastI)
  have before: "\<forall>j<n. \<not> ?ok j" unfolding n_def using not_less_Least by blast
  from n obtain c where c: "net E (clock w + n) (url, hdrs, timeout) = Response 200 c"
    by (auto simp: is_http_200_def split: reply.splits)
  from loop_returns [OF before c, where delay = delay and cache_path = cache_path] assms show ?thesis
    using before c by (intro exI [of _ n] exI [of _ c]) auto
qed

subsection \<open>The cache\<close>


lemma get_tile_image_miss:
  assumes "files w cache_path = None"
  shows "get_tile_image E url cache_path hdrs timeout delay w =
           get_tile_image_loop E url cache_path hdrs timeout delay w"
  using assms by (simp add: get_tile_image_def)


lemma example_attempts:
  "\<forall>j<2. \<not> is_http_200 (net example_env (clock example_world + j) (''o/1/0/1'', None, 10))"
  "net example_env (clock example_world + 2) (''o/1/0/1'', None, 10) = Response 200 [0]"
  "files example_world [''p''] = None"
  "\<not> is_http_200 (net example_env (clock example_world + 0) (''o/1/0/1'', None, 10))"
  "\<not> is_http_200 (net example_env (clock example_world + 1) (''o/1/0/1'', None, 10))"
  "clock example_world = 0"
  by (simp_all add: less_2_cases_iff example_env_def example_net_def example_world_def
        is_http_200_def)

subsection \<open>The claims about the fetcher\<close>




text \<open>
  C4. Both fetches return only upon a response with status 200: when a fetch returns,
  it has issued \<open>n\<close> requests that did not give status 200 (status 429, another status,
  or a transport exception), has slept the delay after each of them, and its result is
  the decoded body of request \<open>n + 1\<close>, the first with status 200. There is no cap: for
  every \<open>n\<close>, after \<open>n\<close> failed attempts followed by a 200 the fetch returns. If no
  attempt ever gives status 200 the fetch is \<open>None\<close>: it neither returns nor raises.
  (For the cached fetch this is the case of a cache miss.)
\<close>

theorem fetch_retries_until_200:
  "(\<forall>r w'. get_tile_image_no_cache E url hdrs timeout delay w = Some (r, w') \<longrightarrow>
       (\<exists>n c. (\<forall>j<n. \<not> is_http_200 (net E (clock w + j) (url, hdrs, timeout)))
          \<and> net E (clock w + n) (url, hdrs, timeout) = Response 200 c
          \<and> r = image_open E c
          \<and> clock w' = clock w + n + 1 \<and> slept w' = slept w + n * delay))
   \<and> (\<forall>r w'. files w cache_path = None
         \<and> get_tile_image E url cache_path hdrs timeout delay w = Some (r, w') \<longrightarrow>
       (\<exists>n c. (\<forall>j<n. \<not> is_http_200 (net E (clock w + j) (url, hdrs, timeout)))
          \<and> net E (clock w + n) (url, hdrs, timeout) = Response 200 c
          \<and> r = image_open E c
          \<and> clock w' = clock w + n + 1 \<and> slept w' = slept w + n * delay))
   \<and> (\<forall>n c. (\<forall>j<n. \<not> is_http_200 (net E (clock w + j) (url, hdrs, timeout)))
          \<and> net E (clock w + n) (url, hdrs, timeout) = Response 200 c \<longrightarrow>
       (\<exists>w'. get_tile_image_no_cache E url hdrs timeout delay w = Some (image_open E c, w')
          \<and> clock w' = clock w + n + 1 \<and> slept w' = slept w + n * delay)
       \<and> (files w cache_path = None \<longrightarrow>
          (\<exists>w'. get_tile_image E url cache_path hdrs timeout delay w = Some (image_open E c, w')
             \<and> clock w' = clock w + n + 1 \<and> slept w' = slept w + n * delay)))
   \<and> ((\<forall>j. \<not> is_http_200 (net E (clock w + j) (url, hdrs, timeout))) \<longrightarrow>
       get_tile_image_no_cache E url hdrs timeout delay w = None
       \<and> (files w cache_path = None \<longrightarrow>
            get_tile_image E url cache_path hdrs timeout delay w = None))"
proof (intro conjI allI impI)
  fix r w'
  assume "get_tile_image_no_cache E url hdrs timeout delay w = Some (r, w')"
  from no_cache_only_200 [OF this]
  show "\<exists>n c. (\<forall>j<n. \<not> is_http_200 (net E (clock w + j) (url, hdrs, timeout)))
          \<and> net E (clock w + n) (url, hdrs, timeout) = Response 200 c
          \<and> r = image_open E c
          \<and> clock w' = clock w + n + 1 \<and> slept w' = slept w + n * delay"
    by blast
next
  fix r w'
  assume "files w cache_path = None
         \<and> get_tile_image E url cache_path hdrs timeout delay w = Some (r, w')"
  then have "get_tile_image_loop E url cache_path hdrs timeout delay w = Some (r, w')"
    by (auto simp: get_tile_image_miss)
  from loop_only_200 [OF this]
  show "\<exists>n c. (\<forall>j<n. \<not> is_http_200 (net E (clock w + j) (url, hdrs, timeout)))
          \<and> net E (clock w + n) (url, hdrs, timeout) = Response 200 c
          \<and> r = image_open E c
          \<and> clock w' = clock w + n + 1 \<and> slept w' = slept w + n * delay"
    by blast
next
  fix n c
  assume a: "(\<forall>j<n. \<not> is_http_200 (net E (clock w + j) (url, hdrs, timeout)))
          \<and> net E (clock w + n) (url, hdrs, timeout) = Response 200 c"
  from no_cache_returns [OF conjunct1 [OF a] conjunct2 [OF a], where delay = delay]
  show "\<exists>w'. get_tile_image_no_cache E url hdrs timeout delay w = Some (image_open E c, w')
          \<and> clock w' = clock w + n + 1 \<and> slept w' = slept w + n * delay"
    by blast
  assume "files w cache_path = None"
  then have "get_tile_image E url cache_path hdrs timeout delay w =
           get_tile_image_loop E url cache_path hdrs timeout delay w"
    by (rule get_tile_image_miss)
  with loop_returns [OF conjunct1 [OF a] conjunct2 [OF a],
      where delay = delay and cache_path = cache_path]
  show "\<exists>w'. get_tile_image E url cache_path hdrs timeout delay w = Some (image_open E c, w')
             \<and> clock w' = clock w + n + 1 \<and> slept w' = slept w + n * delay"
    by auto
next
  assume a: "\<forall>j. \<not> is_http_200 (net E (clock w + j) (url, hdrs, timeout))"
  then show "get_tile_image_no_cache E url hdrs timeout delay w = None"
    by (rule no_cache_never)
  assume "files w cache_path = None"
  then have "get_tile_image E url cache_path hdrs timeout delay w =
           get_tile_image_loop E url cache_path hdrs timeout delay w"
    by (rule get_tile_image_miss)
  with loop_never [OF a]
  show "get_tile_image E url cache_path hdrs timeout delay w = None" by simp
qed

text \<open>
  Witness for C4: the example network fails twice and then answers 200, so both fetches
  return after three requests and two sleeps of five seconds; on a network that always
  answers 429 neither fetch returns.
\<close>

theorem fetch_retries_until_200_witness:
  "\<not> is_http_200 (net example_env (clock example_world + 0) (''o/1/0/1'', None, 10))
   \<and> \<not> is_http_200 (net example_env (clock example_world + 1) (''o/1/0/1'', None, 10))
   \<and> net example_env (clock example_world + 2) (''o/1/0/1'', None, 10) = Response 200 [0]
   \<and> files example_world [''p''] = None
   \<and> (\<exists>w'. get_tile_image_no_cache example_env ''o/1/0/1'' None 10 5 example_world
               = Some (image_open example_env [0], w')
            \<and> clock w' = clock example_world + 2 + 1
            \<and> slept w' = slept example_world + 2 * 5)
   \<and> (\<exists>w'. get_tile_image example_env ''o/1/0/1'' [''p''] None 10 5 example_world
               = Some (image_open example_env [0], w')
            \<and> clock w' = clock example_world + 2 + 1
            \<and> slept w' = slept example_world + 2 * 5)
   \<and> get_tile_image_no_cache (example_env\<lparr>net := \<lambda>k req. Response 429 []\<rparr>)
         ''o/1/0/1'' None 10 5 example_world = None
   \<and> get_tile_image (example_env\<lparr>net := \<lambda>k req. Response 429 []\<rparr>)
         ''o/1/0/1'' [''p''] None 10 5 example_world = None"
proof -
  have never: "\<forall>j. \<not> is_http_200
      (net (example_env\<lparr>net := \<lambda>k req. Response 429 []\<rparr>) (clock example_world + j)
        (''o/1/0/1'', None, 10))"
    by (simp add: is_http_200_def)
  show ?thesis
    using fetch_retries_until_200
            [of example_env "''o/1/0/1''" None 10 5 example_world "[''p'']"]
          fetch_retries_until_200
            [of "example_env\<lparr>net := \<lambda>k req. Response 429 []\<rparr>" "''o/1/0/1''" None 10 5
                example_world "[''p'']"]
          example_attempts(1-5) never
    by blast
qed

section \<open>Properties of the compositor\<close>

subsection \<open>The rounding division of the blend\<close>

lemma div255_core:
  fixes s q d e g :: int
  assumes "0 \<le> s" "s \<le> 65025"
    and "256 * d \<le> s + 128" "s + 128 < 256 * d + 256"
    and "256 * e \<le> d + s + 128" "d + s + 128 < 256 * e + 256"
    and "255 * g \<le> s + 127" "s + 127 < 255 * g + 255"
  shows "e = g"
proof -
  obtain q r where qr: "s = 255 * q + r" "0 \<le> r" "r < 255"
    by (metis mod_mult_div_eq pos_mod_bound pos_mod_sign zero_less_numeral add.commute mult.commute)
  have q: "0 \<le> q" "q \<le> 255" using qr assms(1,2) by linarith+
  have dq: "q - 1 \<le> d" "d \<le> q + 1" using assms(3,4) qr q by linarith+
  have g: "g = (if 128 \<le> r then q + 1 else q)" using assms(7,8) qr by (auto; linarith)
  have d1: "d = q + 1 \<longrightarrow> q + 128 \<le> r" using assms(3) qr by linarith
  have d2: "d = q - 1 \<longrightarrow> r + 128 < q" using assms(4) qr by linarith
  have "e = (if 128 \<le> r then q + 1 else q)"
  proof (cases "128 \<le> r")
    case True
    then have "d \<noteq> q - 1" using d2 q by linarith
    then have "q \<le> d" using dq by linarith
    then show ?thesis using True assms(5,6) qr dq by (auto; linarith)
  next
    case False
    then have "d \<noteq> q + 1" using d1 q by linarith
    then have "d \<le> q" using dq by linarith
    then show ?thesis using False assms(5,6) qr dq by (auto; linarith)
  qed
  with g show ?thesis by simp
qed

lemma nat_div_bounds:
  fixes a k :: nat
  assumes "0 < k"
  shows "k * (a div k) \<le> a" and "a < k * (a div k) + k"
  using assms dividend_less_div_times [of k a] by (simp_all add: mult.commute add.commute)

lemma div255_exact:
  assumes "s \<le> 65025"
  shows "div255 s = (s + 127) div 255"
proof -
  define d where "d = (s + 128) div 256"
  define e where "e = (d + (s + 128)) div 256"
  define g where "g = (s + 127) div 255"
  have d: "256 * d \<le> s + 128" "s + 128 < 256 * d + 256"
    unfolding d_def by (rule nat_div_bounds; simp)+
  have e: "256 * e \<le> d + (s + 128)" "d + (s + 128) < 256 * e + 256"
    unfolding e_def by (rule nat_div_bounds; simp)+
  have g: "255 * g \<le> s + 127" "s + 127 < 255 * g + 255"
    unfolding g_def by (rule nat_div_bounds; simp)+
  have "int e = int g"
    by (rule div255_core [of "int s" "int d"]) (use assms d e g in linarith)+
  then have "e = g" by simp
  then show ?thesis by (simp add: div255_def Let_def d_def e_def g_def)
qed

lemma blend_arg_le:
  "unat (out::8 word) * (255 - unat (m::8 word)) + unat (inp::8 word) * unat m \<le> 65025"
proof -
  have o: "unat out \<le> 255" using unsigned_less [of out, where 'a = nat] by simp
  have i: "unat inp \<le> 255" using unsigned_less [of inp, where 'a = nat] by simp
  have m: "unat m \<le> 255" using unsigned_less [of m, where 'a = nat] by simp
  have "unat out * (255 - unat m) + unat inp * unat m
          \<le> 255 * (255 - unat m) + 255 * unat m"
    using o i by (intro add_mono mult_right_mono) simp_all
  also have "\<dots> = 255 * 255" using m by (simp add: algebra_simps)
  finally show ?thesis by simp
qed

lemma unat_blend:
  "unat (blend m out inp) = (unat out * (255 - unat m) + unat inp * unat m + 127) div 255"
proof -
  let ?s = "unat out * (255 - unat m) + unat inp * unat m"
  have s: "?s \<le> 65025" by (rule blend_arg_le)
  then have "(?s + 127) div 255 < 256" by simp
  then have "unat (of_nat ((?s + 127) div 255) :: 8 word) = (?s + 127) div 255"
    by (simp add: unat_of_nat)
  then show ?thesis by (simp add: blend_def div255_exact [OF s])
qed

lemma blend_opaque: "blend 255 out inp = inp"
proof -
  have "unat inp * 255 + 127 < 255 * (unat inp + 1)" by simp
  then have "(unat inp * 255 + 127) div 255 = unat inp" by simp
  then have "unat (blend 255 out inp) = unat inp" by (simp add: unat_blend)
  then show ?thesis by (simp only: word_unat_eq_iff)
qed

lemma blend_transparent: "blend 0 out inp = out"
proof -
  have "(unat out * 255 + 127) div 255 = unat out" by simp
  then have "unat (blend 0 out inp) = unat out" by (simp add: unat_blend)
  then show ?thesis by (simp only: word_unat_eq_iff)
qed

lemma nearest_quotient:
  fixes S :: nat
  shows "2 * \<bar>255 * int ((S + 127) div 255) - int S\<bar> \<le> 255"
proof -
  define G where "G = (S + 127) div 255"
  have "255 * G \<le> S + 127" "S + 127 < 255 * G + 255"
    unfolding G_def by (rule nat_div_bounds; simp)+
  then have "255 * int G \<le> int S + 127" "int S + 127 < 255 * int G + 255"
    by linarith+
  then have "- 127 \<le> 255 * int G - int S" "255 * int G - int S \<le> 127"
    by linarith+
  then have "\<bar>255 * int G - int S\<bar> \<le> 127" by (simp add: abs_le_iff)
  then have "2 * \<bar>255 * int G - int S\<bar> \<le> 255" by simp
  then show ?thesis by (simp only: G_def)
qed

lemma blend_nearest:
  "2 * \<bar>255 * int (unat (blend m out inp))
        - (int (unat inp) * int (unat m) + int (unat out) * (255 - int (unat m)))\<bar> \<le> 255"
proof -
  let ?s = "unat out * (255 - unat m) + unat inp * unat m"
  have m: "unat m \<le> 255" using unsigned_less [of m, where 'a = nat] by simp
  have s: "int (unat inp) * int (unat m) + int (unat out) * (255 - int (unat m)) = int ?s"
    using m by simp
  show ?thesis unfolding unat_blend s by (rule nearest_quotient)
qed

subsection \<open>Pasting with the overlay as its own mask\<close>

lemma blend_spec:
  "\<bar>real (unat (blend a background overlay)) - spec_alpha_over a background overlay\<bar> \<le> 1 / 2"
proof -
  let ?x = "255 * int (unat (blend a background overlay))
        - (int (unat overlay) * int (unat a) + int (unat background) * (255 - int (unat a)))"
  have "2 * \<bar>?x\<bar> \<le> 255" by (rule blend_nearest)
  then have "real_of_int (2 * \<bar>?x\<bar>) \<le> 255" by linarith
  then have "\<bar>real_of_int ?x\<bar> / 255 \<le> 1 / 2" by simp
  moreover have "real_of_int ?x / 255 =
      real (unat (blend a background overlay)) - spec_alpha_over a background overlay"
    by (simp add: spec_alpha_over_def field_simps)
  ultimately show ?thesis by (metis abs_divide abs_numeral)
qed

lemma paste_mask_size [simp]: "im_size (paste_mask dst src off msk) = im_size dst"
  by (simp add: paste_mask_def)

lemma paste_mask_mode [simp]: "im_mode (paste_mask dst src off msk) = im_mode dst"
  by (simp add: paste_mask_def)

lemma paste_mask_px:
  "im_px (paste_mask dst src (0, 0) src) p =
     (if in_bounds (im_size src) p \<and> in_bounds (im_size dst) p then
        (blend (alpha (im_px src p)) (fst (im_px dst p)) (fst (im_px src p)),
         blend (alpha (im_px src p)) (fst (snd (im_px dst p))) (fst (snd (im_px src p))),
         blend (alpha (im_px src p)) (fst (snd (snd (im_px dst p)))) (fst (snd (snd (im_px src p)))),
         alpha (im_px dst p))
      else im_px dst p)"
  by (simp add: paste_mask_def Let_def)

lemma paste_mask_transparent:
  assumes "\<forall>p. in_bounds (im_size src) p \<longrightarrow> alpha (im_px src p) = 0"
  shows "paste_mask dst src (0, 0) src = dst"
proof -
  have "im_px (paste_mask dst src (0, 0) src) = im_px dst"
  proof
    fix p
    show "im_px (paste_mask dst src (0, 0) src) p = im_px dst p"
    proof (cases "in_bounds (im_size src) p \<and> in_bounds (im_size dst) p")
      case True
      with assms have "alpha (im_px src p) = 0" by blast
      with True show ?thesis by (simp add: paste_mask_px blend_transparent alpha_def)
    next
      case False
      then show ?thesis by (auto simp: paste_mask_px)
    qed
  qed
  then show ?thesis by (simp add: paste_mask_def)
qed

lemma paste_mask_opaque:
  assumes "\<forall>p. in_bounds (im_size src) p \<longrightarrow> alpha (im_px src p) = 255"
    and "in_bounds (im_size src) p" and "in_bounds (im_size dst) p"
  shows "rgb (im_px (paste_mask dst src (0, 0) src) p) = rgb (im_px src p)"
proof -
  from assms(1,2) have "alpha (im_px src p) = 255" by blast
  with assms(2,3) show ?thesis by (simp add: paste_mask_px blend_opaque rgb_def)
qed

lemma fit_overlay_size [simp]: "im_size (fit_overlay E T ov) = (T, T)"
  by (simp add: fit_overlay_def convert_RGBA_def resize_def Let_def)

lemma fit_overlay_mode [simp]: "im_mode (fit_overlay E T ov) = ''RGBA''"
  by (simp add: fit_overlay_def convert_RGBA_def resize_def Let_def)

lemma fit_overlay_same_size:
  "im_size ov = (T, T) \<Longrightarrow> im_px (fit_overlay E T ov) = im_px ov"
  by (simp add: fit_overlay_def convert_RGBA_def Let_def)

lemma prepare_bg_size [simp]: "im_size (prepare_bg E T bg) = (T, T)"
  by (simp add: prepare_bg_def image_truthy_def resize_def convert_RGB_def)

lemma prepare_bg_mode [simp]: "im_mode (prepare_bg E T bg) = ''RGB''"
  by (simp add: prepare_bg_def image_truthy_def resize_def convert_RGB_def)

lemma composite_overlay_eq:
  "composite_overlay E T bg ov =
     (paste_mask bg (fit_overlay E T ov) (0, 0) (fit_overlay E T ov),
      has_alpha_or_transparency ov)"
  by (simp add: composite_overlay_def image_truthy_def Let_def)

lemma process_and_composite_tile_Inr:
  assumes "process_and_composite_tile E (x, y, z, T, cd, osm, wp) w = Some (Inr (x', y', im, flag), w')"
  shows "x' = x \<and> y' = y \<and> im_size im = (T, T)
         \<and> (\<exists>bg0 ov url w1.
               get_tile_image_no_cache E url None 15 5 w1 = Some (Inr ov, w')
             \<and> (im, flag) = composite_overlay E T (prepare_bg E T bg0) ov)"
  using assms
  by (auto simp: process_and_composite_tile_def Let_def composite_overlay_eq
           split: sum.splits option.splits prod.splits)

section \<open>Properties of the coordinator\<close>

subsection \<open>The collection loop\<close>

text \<open>What one completed future does to the state of the loop.\<close>

lemma collect_Cons_Inr:
  "collect mx my T n st ((t, Inr (x, y, im, f)) # rest) =
     collect mx my T n
       (st\<lparr>processed_count := processed_count st + 1,
           stdout := stdout st @ [FinishedTile (processed_count st + 1) n x y],
           custom_found := (if f then custom_found st + 1 else custom_found st),
           final_image := paste (final_image st) im ((x - mx) * T, (y - my) * T)\<rparr>) rest"
  by (simp add: Let_def)

lemma collect_Cons_Inl:
  "collect mx my T n st ((t, Inl e) # rest) =
     collect mx my T n
       (st\<lparr>processed_count := processed_count st + 1,
           stdout := stdout st @ [ErrorProcessingTile (fst t, fst (snd t)) e]\<rparr>) rest"
  by (simp add: Let_def)

lemma paste_size [simp]: "im_size (paste dst src off) = im_size dst"
  by (simp add: paste_def)

lemma paste_px:
  "im_px (paste dst src off) p =
     (if in_bounds (im_size src) (fst p - fst off, snd p - snd off) \<and> in_bounds (im_size dst) p
      then im_px src (fst p - fst off, snd p - snd off) else im_px dst p)"
  by (simp add: paste_def Let_def)

lemma collect_size:
  "im_size (final_image (collect mx my T n st rs)) = im_size (final_image st)"
proof (induction rs arbitrary: st)
  case Nil
  show ?case by simp
next
  case (Cons a rs)
  obtain t r where a: "a = (t, r)" by (cases a)
  show ?case
  proof (cases r)
    case (Inl e)
    show ?thesis unfolding a Inl collect_Cons_Inl by (simp add: Cons.IH)
  next
    case (Inr q)
    obtain x y im f where q: "q = (x, y, im, f)" by (cases q)
    show ?thesis unfolding a Inr q collect_Cons_Inr by (simp add: Cons.IH)
  qed
qed

lemma collect_custom_found:
  "custom_found (collect mx my T n st rs) = custom_found st + length (filter flag_of rs)"
proof (induction rs arbitrary: st)
  case Nil
  show ?case by simp
next
  case (Cons a rs)
  obtain t r where a: "a = (t, r)" by (cases a)
  show ?case
  proof (cases r)
    case (Inl e)
    show ?thesis unfolding a Inl collect_Cons_Inl by (simp add: Cons.IH flag_of_def)
  next
    case (Inr q)
    obtain x y im f where q: "q = (x, y, im, f)" by (cases q)
    show ?thesis unfolding a Inr q collect_Cons_Inr by (simp add: Cons.IH flag_of_def)
  qed
qed

lemma collect_stdout_mono:
  "set (stdout st) \<subseteq> set (stdout (collect mx my T n st rs))"
proof (induction rs arbitrary: st)
  case Nil
  show ?case by simp
next
  case (Cons a rs)
  obtain t r where a: "a = (t, r)" by (cases a)
  show ?case
  proof (cases r)
    case (Inl e)
    show ?thesis unfolding a Inl collect_Cons_Inl
      using Cons.IH [of "st\<lparr>processed_count := processed_count st + 1,
           stdout := stdout st @ [ErrorProcessingTile (fst t, fst (snd t)) e]\<rparr>"]
      by auto
  next
    case (Inr q)
    obtain x y im f where q: "q = (x, y, im, f)" by (cases q)
    show ?thesis unfolding a Inr q collect_Cons_Inr
      using Cons.IH [of "st\<lparr>processed_count := processed_count st + 1,
           stdout := stdout st @ [FinishedTile (processed_count st + 1) n x y],
           custom_found := (if f then custom_found st + 1 else custom_found st),
           final_image := paste (final_image st) im ((x - mx) * T, (y - my) * T)\<rparr>"]
      by auto
  qed
qed

lemma collect_logs_error:
  assumes "(t, Inl e) \<in> set rs"
  shows "ErrorProcessingTile (fst t, fst (snd t)) e \<in> set (stdout (collect mx my T n st rs))"
  using assms
proof (induction rs arbitrary: st)
  case Nil
  then show ?case by simp
next
  case (Cons a rs)
  obtain t' r where a: "a = (t', r)" by (cases a)
  show ?case
  proof (cases "a = (t, Inl e)")
    case True
    have "ErrorProcessingTile (fst t, fst (snd t)) e \<in>
            set (stdout (st\<lparr>processed_count := processed_count st + 1,
              stdout := stdout st @ [ErrorProcessingTile (fst t, fst (snd t)) e]\<rparr>))"
      by simp
    then show ?thesis unfolding True collect_Cons_Inl
      using collect_stdout_mono by blast
  next
    case False
    with Cons.prems have in_rest: "(t, Inl e) \<in> set rs" by simp
    show ?thesis
    proof (cases r)
      case (Inl e')
      show ?thesis unfolding a Inl collect_Cons_Inl by (rule Cons.IH [OF in_rest])
    next
      case (Inr q)
      obtain x y im f where q: "q = (x, y, im, f)" by (cases q)
      show ?thesis unfolding a Inr q collect_Cons_Inr by (rule Cons.IH [OF in_rest])
    qed
  qed
qed

text \<open>A position that no pasted box covers keeps its pixel.\<close>

lemma collect_px_untouched:
  assumes "\<forall>a \<in> set rs. \<not> touches mx my T p a"
  shows "im_px (final_image (collect mx my T n st rs)) p = im_px (final_image st) p"
  using assms
proof (induction rs arbitrary: st)
  case Nil
  show ?case by simp
next
  case (Cons a rs)
  obtain t r where a: "a = (t, r)" by (cases a)
  from Cons.prems have rest: "\<forall>a \<in> set rs. \<not> touches mx my T p a" by simp
  show ?case
  proof (cases r)
    case (Inl e)
    show ?thesis unfolding a Inl collect_Cons_Inl by (simp add: Cons.IH [OF rest])
  next
    case (Inr q)
    obtain x y im f where q: "q = (x, y, im, f)" by (cases q)
    from Cons.prems have "\<not> in_bounds (im_size im) (fst p - (x - mx) * T, snd p - (y - my) * T)"
      by (simp add: a Inr q touches_def)
    then show ?thesis unfolding a Inr q collect_Cons_Inr
      by (simp add: Cons.IH [OF rest] paste_px)
  qed
qed

lemma interval_disjoint:
  fixes T :: int
  assumes T: "0 < T" and ne: "k \<noteq> k'"
    and a: "0 \<le> v - k * T" "v - k * T < T"
    and b: "0 \<le> v - k' * T" "v - k' * T < T"
  shows False
proof (cases "k < k'")
  case True
  then have "k + 1 \<le> k'" by simp
  then have "(k + 1) * T \<le> k' * T" using T by (simp only: mult_right_mono less_imp_le)
  then show False using a b by (simp add: algebra_simps)
next
  case False
  with ne have "k' + 1 \<le> k" by simp
  then have "(k' + 1) * T \<le> k * T" using T by (simp only: mult_right_mono less_imp_le)
  then show False using a b by (simp add: algebra_simps)
qed

lemma tile_boxes_disjoint:
  assumes "0 < T" and "t1 \<noteq> t2"
    and "in_tile_box mx my T t1 p" and "in_tile_box mx my T t2 p"
  shows False
proof (cases "fst t1 = fst t2")
  case False
  then have "fst t1 - mx \<noteq> fst t2 - mx" by simp
  from interval_disjoint [OF assms(1) this, of "fst p"] assms(3,4)
  show False by (simp add: in_tile_box_def in_bounds_def)
next
  case True
  with assms(2) have "snd t1 \<noteq> snd t2" by (simp add: prod_eq_iff)
  then have "snd t1 - my \<noteq> snd t2 - my" by simp
  from interval_disjoint [OF assms(1) this, of "snd p"] assms(3,4)
  show False by (simp add: in_tile_box_def in_bounds_def)
qed

lemma wf_touches_box:
  assumes "wf_result T a" and "touches mx my T p a"
  shows "in_tile_box mx my T (coords_of a) p"
  using assms
  by (cases "snd a") (auto simp: wf_result_def touches_def in_tile_box_def)

lemma collect_px_written:
  assumes T: "0 < T"
    and wf: "\<forall>a \<in> set rs. wf_result T a"
    and dist: "distinct (map coords_of rs)"
    and mem: "(t, Inr (x, y, im, f)) \<in> set rs"
    and box: "in_tile_box mx my T (x, y) p"
    and canvas: "in_bounds (im_size (final_image st)) p"
  shows "im_px (final_image (collect mx my T n st rs)) p =
           im_px im (fst p - (x - mx) * T, snd p - (y - my) * T)"
  using wf dist mem canvas
proof (induction rs arbitrary: st)
  case Nil
  then show ?case by simp
next
  case (Cons a rs)
  obtain t' r where a: "a = (t', r)" by (cases a)
  from Cons.prems(1) have wf_rest: "\<forall>a \<in> set rs. wf_result T a" by simp
  from Cons.prems(2) have dist_rest: "distinct (map coords_of rs)" by simp
  show ?case
  proof (cases "a = (t, Inr (x, y, im, f))")
    case True
    from Cons.prems(1) True have wfa: "wf_result T (t, Inr (x, y, im, f))" by simp
    then have c: "coords_of (t, Inr (x, y, im, f)) = (x, y)" and sz: "im_size im = (T, T)"
      by (simp_all add: wf_result_def)
    have untouched: "\<forall>b \<in> set rs. \<not> touches mx my T p b"
    proof
      fix b assume b: "b \<in> set rs"
      show "\<not> touches mx my T p b"
      proof
        assume "touches mx my T p b"
        with wf_rest b have "in_tile_box mx my T (coords_of b) p"
          by (blast intro: wf_touches_box)
        moreover have "coords_of b \<noteq> (x, y)"
          using Cons.prems(2) b c unfolding True by force
        ultimately show False using tile_boxes_disjoint [OF T _ _ box] by blast
      qed
    qed
    have "in_bounds (im_size im) (fst p - (x - mx) * T, snd p - (y - my) * T)"
      using box sz by (simp add: in_tile_box_def)
    then show ?thesis unfolding True collect_Cons_Inr
      using Cons.prems(4) by (simp add: collect_px_untouched [OF untouched] paste_px)
  next
    case False
    with Cons.prems(3) have in_rest: "(t, Inr (x, y, im, f)) \<in> set rs" by simp
    show ?thesis
    proof (cases r)
      case (Inl e)
      show ?thesis unfolding a Inl collect_Cons_Inl
        by (rule Cons.IH [OF wf_rest dist_rest in_rest]) (simp add: Cons.prems(4))
    next
      case (Inr q)
      obtain x' y' im' f' where q: "q = (x', y', im', f')" by (cases q)
      show ?thesis unfolding a Inr q collect_Cons_Inr
        by (rule Cons.IH [OF wf_rest dist_rest in_rest]) (simp add: Cons.prems(4))
    qed
  qed
qed

text \<open>The completed futures.\<close>

lemma as_completed_Some:
  assumes "as_completed fut order = Some rs"
  shows "map fst rs = order \<and> (\<forall>a \<in> set rs. \<exists>w. fut (fst a) = Some (snd a, w))"
  using assms
proof (induction order arbitrary: rs)
  case Nil
  then show ?case by simp
next
  case (Cons t ts)
  from Cons.prems obtain r w rs' where
    f: "fut t = Some (r, w)" and r: "as_completed fut ts = Some rs'" and e: "rs = (t, r) # rs'"
    by (auto split: option.splits prod.splits)
  from Cons.IH [OF r] f show ?case unfolding e by auto
qed

lemma as_completed_total:
  assumes "\<forall>t \<in> set order. fut t \<noteq> None"
  shows "\<exists>rs. as_completed fut order = Some rs"
  using assms
proof (induction order)
  case Nil
  show ?case by simp
next
  case (Cons t ts)
  then obtain rs where "as_completed fut ts = Some rs" by auto
  moreover from Cons.prems obtain r w where "fut t = Some (r, w)" by auto
  ultimately show ?case by simp
qed

lemma as_completed_None:
  assumes "t \<in> set order" and "fut t = None"
  shows "as_completed fut order = None"
  using assms by (induction order) (auto split: option.splits)

subsection \<open>The tile list and the canvas\<close>

lemma tiles_of_range_product:
  "tiles_of_range (sx, ex, sy, ey) = List.product [sx..ex] [sy..ey]"
  by (simp add: tiles_of_range_def product_concat_map)

lemma set_tiles_of_range:
  "set (tiles_of_range (sx, ex, sy, ey)) = {sx..ex} \<times> {sy..ey}"
  by (simp add: tiles_of_range_product)

lemma distinct_tiles_of_range: "distinct (tiles_of_range (sx, ex, sy, ey))"
  by (simp add: tiles_of_range_product distinct_product)

lemma py_min_Min: "xs \<noteq> [] \<Longrightarrow> py_min xs = Min (set xs)"
  by (cases xs) (simp_all add: Min.set_eq_fold del: set_simps)

lemma py_max_Max: "xs \<noteq> [] \<Longrightarrow> py_max xs = Max (set xs)"
  by (cases xs) (simp_all add: Max.set_eq_fold del: set_simps)

lemma Min_int_interval: "(a::int) \<le> b \<Longrightarrow> Min {a..b} = a"
  by (rule Min_eqI) simp_all

lemma Max_int_interval: "(a::int) \<le> b \<Longrightarrow> Max {a..b} = b"
  by (rule Max_eqI) simp_all

lemma tiles_of_range_extent:
  assumes "sx \<le> ex" and "sy \<le> ey"
  shows "py_min (map fst (tiles_of_range (sx, ex, sy, ey))) = sx"
    and "py_max (map fst (tiles_of_range (sx, ex, sy, ey))) = ex"
    and "py_min (map snd (tiles_of_range (sx, ex, sy, ey))) = sy"
    and "py_max (map snd (tiles_of_range (sx, ex, sy, ey))) = ey"
proof -
  let ?ts = "tiles_of_range (sx, ex, sy, ey)"
  have ne: "map fst ?ts \<noteq> []" "map snd ?ts \<noteq> []"
    using assms by (simp_all add: tiles_of_range_nonempty)
  have x: "set (map fst ?ts) = {sx..ex}"
    using assms by (simp add: set_tiles_of_range)
  have y: "set (map snd ?ts) = {sy..ey}"
    using assms by (simp add: set_tiles_of_range)
  show "py_min (map fst ?ts) = sx" using assms unfolding py_min_Min [OF ne(1)] x by (simp add: Min_int_interval)
  show "py_max (map fst ?ts) = ex" using assms unfolding py_max_Max [OF ne(1)] x by (simp add: Max_int_interval)
  show "py_min (map snd ?ts) = sy" using assms unfolding py_min_Min [OF ne(2)] y by (simp add: Min_int_interval)
  show "py_max (map snd ?ts) = ey" using assms unfolding py_max_Max [OF ne(2)] y by (simp add: Max_int_interval)
qed

subsection \<open>The run\<close>

lemma make_tasks_coords:
  "map (\<lambda>t. (fst t, fst (snd t))) (make_tasks P tiles) = tiles"
  by (induction tiles) (auto simp: make_tasks_def)

lemma make_tasks_mem:
  assumes "t \<in> set (make_tasks P tiles)"
  shows "\<exists>x y. (x, y) \<in> set tiles
           \<and> t = (x, y, cfg_zoom P, cfg_TILE_SIZE P, cfg_CACHE_DIR P, cfg_OSM_URL P, cfg_WPLACE_URL P)"
  using assms by (auto simp: make_tasks_def)

lemma main_run:
  assumes tr: "tile_range (cfg_min_lat P) (cfg_max_lat P) (cfg_min_lon P) (cfg_max_lon P)
                 (cfg_zoom P) = Inr (sx, ex, sy, ey)"
  shows "main P target_name date_str E ws order =
     (case as_completed (\<lambda>t. process_and_composite_tile E t (ws t)) order of
        None \<Rightarrow> None
      | Some completed \<Rightarrow>
          Some (Inr
            (let st = collect sx sy (cfg_TILE_SIZE P) (length (tiles_of_range (sx, ex, sy, ey)))
                        \<lparr>final_image =
                           image_new ''RGB''
                             ((ex - sx + 1) * cfg_TILE_SIZE P, (ey - sy + 1) * cfg_TILE_SIZE P)
                             (0, 0, 0),
                         custom_found = 0, processed_count = 0,
                         stdout = [TotalTiles (length (tiles_of_range (sx, ex, sy, ey))),
                                   FinalImage ((ex - sx + 1) * cfg_TILE_SIZE P)
                                     ((ey - sy + 1) * cfg_TILE_SIZE P)],
                         saved = []\<rparr> completed
             in st\<lparr>stdout := stdout st @
                       [DoneCustom (custom_found st) (length (tiles_of_range (sx, ex, sy, ey))),
                        SavedAs (target_name @ ''_'' @ date_str @ ''.png'')],
                     saved := [(target_name @ ''_'' @ date_str @ ''.png'', final_image st)]\<rparr>)))"
proof -
  have le: "sx \<le> ex" "sy \<le> ey" using tile_range_Inr [OF tr] by simp_all
  have g: "get_tiles_in_bbox (cfg_min_lat P) (cfg_max_lat P) (cfg_min_lon P) (cfg_max_lon P)
             (cfg_zoom P) = Inr (tiles_of_range (sx, ex, sy, ey))"
    using tr by (simp add: get_tiles_in_bbox_def)
  show ?thesis
    unfolding main_cases g sum.case tiles_of_range_extent [OF le] ..
qed

lemma completed_wf:
  assumes c: "as_completed (\<lambda>t. process_and_composite_tile E t (ws t)) order = Some rs"
    and sub: "set order \<subseteq> set (make_tasks P tiles)"
  shows "\<forall>a \<in> set rs. wf_result (cfg_TILE_SIZE P) a"
proof
  fix a assume a: "a \<in> set rs"
  from as_completed_Some [OF c] a obtain w where
    o: "map fst rs = order" and f: "process_and_composite_tile E (fst a) (ws (fst a)) = Some (snd a, w)"
    by blast
  from a o have "fst a \<in> set order" by force
  with sub make_tasks_mem [of "fst a" P tiles] obtain x y where
    t: "fst a = (x, y, cfg_zoom P, cfg_TILE_SIZE P, cfg_CACHE_DIR P, cfg_OSM_URL P, cfg_WPLACE_URL P)"
    by blast
  show "wf_result (cfg_TILE_SIZE P) a"
  proof (cases "snd a")
    case (Inl e)
    then show ?thesis by (simp add: wf_result_def)
  next
    case (Inr q)
    obtain x' y' im fl where q: "q = (x', y', im, fl)" by (cases q)
    from f have "process_and_composite_tile E
        (x, y, cfg_zoom P, cfg_TILE_SIZE P, cfg_CACHE_DIR P, cfg_OSM_URL P, cfg_WPLACE_URL P)
        (ws (fst a)) = Some (Inr (x', y', im, fl), w)"
      by (simp add: t Inr q)
    from process_and_composite_tile_Inr [OF this]
    show ?thesis by (simp add: wf_result_def Inr q coords_of_def t)
  qed
qed

lemma completed_distinct:
  assumes c: "as_completed fut order = Some rs"
    and m: "mset order = mset (make_tasks P tiles)"
    and d: "distinct tiles"
  shows "distinct (map coords_of rs)"
proof -
  let ?g = "\<lambda>t::tile_info. (fst t, fst (snd t))"
  have 1: "map coords_of rs = map ?g (map fst rs)"
    by (induction rs) (simp_all add: coords_of_def)
  have 2: "map fst rs = order" using as_completed_Some [OF c] by blast
  have "image_mset ?g (mset order) = image_mset ?g (mset (make_tasks P tiles))"
    by (simp only: m)
  then have 3: "mset (map ?g order) = mset (map ?g (make_tasks P tiles))"
    by (simp only: mset_map)
  have "mset (map coords_of rs) = mset tiles"
    by (simp only: 1 2 3 make_tasks_coords)
  from mset_eq_imp_distinct_iff [OF this] d show ?thesis by blast
qed

lemma box_in_canvas:
  assumes T: "0 < T" and x: "sx \<le> x" "x \<le> ex" and y: "sy \<le> y" "y \<le> ey"
    and box: "in_tile_box sx sy T (x, y) p"
  shows "in_bounds ((ex - sx + 1) * T, (ey - sy + 1) * T) p"
proof -
  have a: "0 \<le> (x - sx) * T" "0 \<le> (y - sy) * T" using T x y by simp_all
  have "(x - sx + 1) * T \<le> (ex - sx + 1) * T"
    by (rule mult_right_mono) (use T x in simp_all)
  moreover have "(y - sy + 1) * T \<le> (ey - sy + 1) * T"
    by (rule mult_right_mono) (use T y in simp_all)
  ultimately have "(x - sx + 1) * T \<le> (ex - sx + 1) * T" "(y - sy + 1) * T \<le> (ey - sy + 1) * T"
    by blast+
  then have b: "(x - sx) * T + T \<le> (ex - sx + 1) * T" "(y - sy) * T + T \<le> (ey - sy + 1) * T"
    by (simp_all add: algebra_simps)
  from box have "0 \<le> fst p - (x - sx) * T" "fst p - (x - sx) * T < T"
     "0 \<le> snd p - (y - sy) * T" "snd p - (y - sy) * T < T"
    by (simp_all add: in_tile_box_def in_bounds_def)
  with a b have "0 \<le> fst p" "fst p < (ex - sx + 1) * T" "0 \<le> snd p" "snd p < (ey - sy + 1) * T"
    by linarith+
  then show ?thesis by (simp add: in_bounds_def)
qed

lemma main_Some_Inr:
  assumes tr: "tile_range (cfg_min_lat P) (cfg_max_lat P) (cfg_min_lon P) (cfg_max_lon P)
                 (cfg_zoom P) = Inr (sx, ex, sy, ey)"
    and run: "main P target_name date_str E ws order = Some (Inr res)"
  shows "\<exists>rs st. as_completed (\<lambda>t. process_and_composite_tile E t (ws t)) order = Some rs
          \<and> st = collect sx sy (cfg_TILE_SIZE P) (length (tiles_of_range (sx, ex, sy, ey)))
                 \<lparr>final_image =
                    image_new ''RGB''
                      ((ex - sx + 1) * cfg_TILE_SIZE P, (ey - sy + 1) * cfg_TILE_SIZE P)
                      (0, 0, 0),
                  custom_found = 0, processed_count = 0,
                  stdout = [TotalTiles (length (tiles_of_range (sx, ex, sy, ey))),
                            FinalImage ((ex - sx + 1) * cfg_TILE_SIZE P)
                              ((ey - sy + 1) * cfg_TILE_SIZE P)],
                  saved = []\<rparr> rs
          \<and> final_image res = final_image st
          \<and> custom_found res = custom_found st
          \<and> set (stdout st) \<subseteq> set (stdout res)
          \<and> saved res = [(target_name @ ''_'' @ date_str @ ''.png'', final_image res)]"
proof (cases "as_completed (\<lambda>t. process_and_composite_tile E t (ws t)) order")
  case None
  with run show ?thesis by (simp add: main_run [OF tr])
next
  case (Some rs)
  define st where "st = collect sx sy (cfg_TILE_SIZE P) (length (tiles_of_range (sx, ex, sy, ey)))
                 \<lparr>final_image =
                    image_new ''RGB''
                      ((ex - sx + 1) * cfg_TILE_SIZE P, (ey - sy + 1) * cfg_TILE_SIZE P)
                      (0, 0, 0),
                  custom_found = 0, processed_count = 0,
                  stdout = [TotalTiles (length (tiles_of_range (sx, ex, sy, ey))),
                            FinalImage ((ex - sx + 1) * cfg_TILE_SIZE P)
                              ((ey - sy + 1) * cfg_TILE_SIZE P)],
                  saved = []\<rparr> rs"
  from run [unfolded main_run [OF tr] Some option.case, folded st_def]
  have "res = st\<lparr>stdout := stdout st @
                       [DoneCustom (custom_found st) (length (tiles_of_range (sx, ex, sy, ey))),
                        SavedAs (target_name @ ''_'' @ date_str @ ''.png'')],
                     saved := [(target_name @ ''_'' @ date_str @ ''.png'', final_image st)]\<rparr>"
    by (simp add: Let_def)
  then have "final_image res = final_image st" "custom_found res = custom_found st"
    "set (stdout st) \<subseteq> set (stdout res)"
    "saved res = [(target_name @ ''_'' @ date_str @ ''.png'', final_image res)]"
    by auto
  with Some st_def show ?thesis by blast
qed

lemma main_total:
  assumes tr: "tile_range (cfg_min_lat P) (cfg_max_lat P) (cfg_min_lon P) (cfg_max_lon P)
                 (cfg_zoom P) = Inr (sx, ex, sy, ey)"
    and all: "\<forall>t \<in> set order. process_and_composite_tile E t (ws t) \<noteq> None"
  shows "\<exists>res. main P target_name date_str E ws order = Some (Inr res)"
proof -
  from as_completed_total [OF all] obtain rs where
    "as_completed (\<lambda>t. process_and_composite_tile E t (ws t)) order = Some rs" by blast
  then show ?thesis by (simp add: main_run [OF tr])
qed

lemma completed_flag:
  assumes c: "as_completed fut order = Some rs"
  shows "length (filter flag_of rs) = length (filter (\<lambda>t. custom_used_of (fut t)) order)"
  using c
proof (induction order arbitrary: rs)
  case Nil
  then show ?case by simp
next
  case (Cons t ts)
  from Cons.prems obtain r w rs' where
    f: "fut t = Some (r, w)" and r: "as_completed fut ts = Some rs'" and e: "rs = (t, r) # rs'"
    by (auto split: option.splits prod.splits)
  have "flag_of (t, r) = custom_used_of (fut t)"
    unfolding f by (cases r) (auto simp: flag_of_def custom_used_of_def)
  with Cons.IH [OF r] show ?case unfolding e by simp
qed

lemma length_filter_mset:
  assumes "mset xs = mset ys"
  shows "length (filter Q xs) = length (filter Q ys)"
proof -
  have "mset (filter Q xs) = mset (filter Q ys)" using assms by (simp only: mset_filter)
  then show ?thesis by (rule mset_eq_length)
qed


lemma make_tasks_same_coords:
  assumes "t \<in> set (make_tasks P tiles)" and "t' \<in> set (make_tasks P tiles)"
    and "fst t = fst t'" and "fst (snd t) = fst (snd t')"
  shows "t = t'"
  using make_tasks_mem [OF assms(1)] make_tasks_mem [OF assms(2)] assms(3,4) by auto


subsection \<open>The concrete run\<close>

lemma example_worker_returns_eval: "map_option (\<lambda>(r, w). case r of Inl e \<Rightarrow> None | Inr (x, y, im, f) \<Rightarrow> Some (x, y, f, im_px im (0, 0)))
   (process_and_composite_tile example_env (example_task (0, 1)) example_world)
   = Some (Some (0, 1, True, (10, 20, 30, 255)))"
  by code_simp

lemma example_worker_raises_eval: "map_option (\<lambda>(r, w). case r of Inl e \<Rightarrow> Some e | Inr q \<Rightarrow> None)
   (process_and_composite_tile example_env (example_task (1, 1)) example_world)
   = Some (Some UnidentifiedImageError)"
  by code_simp

lemma example_worker_raises: "map_option fst (process_and_composite_tile example_env (example_task (1, 1)) example_world)
   = Some (Inl UnidentifiedImageError)"
proof (cases "process_and_composite_tile example_env (example_task (1, 1)) example_world")
  case None
  with example_worker_raises_eval show ?thesis by simp
next
  case (Some a)
  obtain r w where a: "a = (r, w)" by (cases a)
  from example_worker_raises_eval show ?thesis unfolding Some a by (cases r) simp_all
qed

lemma example_worker_returns: "\<exists>im w'. process_and_composite_tile example_env (example_task (0, 1)) example_world
     = Some (Inr (0, 1, im, True), w') \<and> im_px im (0, 0) = (10, 20, 30, 255)"
proof (cases "process_and_composite_tile example_env (example_task (0, 1)) example_world")
  case None
  with example_worker_returns_eval show ?thesis by simp
next
  case (Some a)
  obtain r w where a: "a = (r, w)" by (cases a)
  show ?thesis
  proof (cases r)
    case (Inl e)
    with example_worker_returns_eval show ?thesis unfolding Some a by simp
  next
    case (Inr q)
    obtain x y im f where q: "q = (x, y, im, f)" by (cases q)
    from example_worker_returns_eval show ?thesis unfolding Some a Inr q by simp
  qed
qed

lemma example_tasks: "make_tasks example_params [(0, 1), (1, 1)] = [example_task (0, 1), example_task (1, 1)]"
  by (simp add: make_tasks_def example_task_def)

lemma example_tile_range: "tile_range (cfg_min_lat example_params) (cfg_max_lat example_params)
     (cfg_min_lon example_params) (cfg_max_lon example_params) (cfg_zoom example_params) = Inr (0, 1, 1, 1)"
  by (simp add: example_params_def tile_range_def lat_lon_to_tile_def radians_def clamp_tile_def)

lemma example_tiles: "tiles_of_range (0, 1, 1, 1) = [(0, 1), (1, 1)]"
  by (simp add: tiles_of_range_def upto.simps)

section \<open>The claims about the compositor and the coordinator\<close>

text \<open>
  C8. The composite is the background with the overlay, converted to RGBA and resized
  to the tile size on need, pasted at (0, 0) with the overlay itself as the mask. It has
  the size and mode of the background. At each position inside the tile and the
  background, each colour byte is the 8-bit value nearest to
  \<open>overlay * alpha + background * (1 - alpha)\<close>, where alpha is the overlay's alpha
  byte divided by 255. If the overlay as it is pasted is fully opaque, the composite has
  the overlay's colours at every such position; if it is fully transparent, the
  composite is the background. An overlay that already has the tile size is pasted with
  its own pixels.
\<close>

theorem composite_overlay_alpha_blend:
  "fst (composite_overlay E T bg ov)
      = paste_mask bg (fit_overlay E T ov) (0, 0) (fit_overlay E T ov)
   \<and> im_size (fit_overlay E T ov) = (T, T)
   \<and> im_size (fst (composite_overlay E T bg ov)) = im_size bg
   \<and> im_mode (fst (composite_overlay E T bg ov)) = im_mode bg
   \<and> (im_size ov = (T, T) \<longrightarrow> im_px (fit_overlay E T ov) = im_px ov)
   \<and> (\<forall>p. in_bounds (T, T) p \<and> in_bounds (im_size bg) p \<longrightarrow>
         (\<exists>r g b a. im_px (fst (composite_overlay E T bg ov)) p = (r, g, b, a)
            \<and> \<bar>real (unat r) - spec_alpha_over (alpha (im_px (fit_overlay E T ov) p))
                   (fst (im_px bg p)) (fst (im_px (fit_overlay E T ov) p))\<bar> \<le> 1 / 2
            \<and> \<bar>real (unat g) - spec_alpha_over (alpha (im_px (fit_overlay E T ov) p))
                   (fst (snd (im_px bg p))) (fst (snd (im_px (fit_overlay E T ov) p)))\<bar> \<le> 1 / 2
            \<and> \<bar>real (unat b) - spec_alpha_over (alpha (im_px (fit_overlay E T ov) p))
                   (fst (snd (snd (im_px bg p))))
                   (fst (snd (snd (im_px (fit_overlay E T ov) p))))\<bar> \<le> 1 / 2))
   \<and> ((\<forall>p. in_bounds (T, T) p \<longrightarrow> alpha (im_px (fit_overlay E T ov) p) = 255) \<longrightarrow>
        (\<forall>p. in_bounds (T, T) p \<and> in_bounds (im_size bg) p \<longrightarrow>
           rgb (im_px (fst (composite_overlay E T bg ov)) p)
             = rgb (im_px (fit_overlay E T ov) p)))
   \<and> ((\<forall>p. in_bounds (T, T) p \<longrightarrow> alpha (im_px (fit_overlay E T ov) p) = 0) \<longrightarrow>
        fst (composite_overlay E T bg ov) = bg)"
proof -
  let ?ov = "fit_overlay E T ov"
  have c: "fst (composite_overlay E T bg ov) = paste_mask bg ?ov (0, 0) ?ov"
    by (simp add: composite_overlay_eq)
  have blend: "\<exists>r g b a. im_px (fst (composite_overlay E T bg ov)) p = (r, g, b, a)
            \<and> \<bar>real (unat r) - spec_alpha_over (alpha (im_px ?ov p))
                   (fst (im_px bg p)) (fst (im_px ?ov p))\<bar> \<le> 1 / 2
            \<and> \<bar>real (unat g) - spec_alpha_over (alpha (im_px ?ov p))
                   (fst (snd (im_px bg p))) (fst (snd (im_px ?ov p)))\<bar> \<le> 1 / 2
            \<and> \<bar>real (unat b) - spec_alpha_over (alpha (im_px ?ov p))
                   (fst (snd (snd (im_px bg p)))) (fst (snd (snd (im_px ?ov p))))\<bar> \<le> 1 / 2"
    if "in_bounds (T, T) p \<and> in_bounds (im_size bg) p" for p
  proof -
    from that have
      "im_px (paste_mask bg ?ov (0, 0) ?ov) p =
         (blend (alpha (im_px ?ov p)) (fst (im_px bg p)) (fst (im_px ?ov p)),
          blend (alpha (im_px ?ov p)) (fst (snd (im_px bg p))) (fst (snd (im_px ?ov p))),
          blend (alpha (im_px ?ov p)) (fst (snd (snd (im_px bg p)))) (fst (snd (snd (im_px ?ov p)))),
          alpha (im_px bg p))"
      by (simp add: paste_mask_px)
    then show ?thesis unfolding c using blend_spec by blast
  qed
  have opaque: "rgb (im_px (fst (composite_overlay E T bg ov)) p) = rgb (im_px ?ov p)"
    if "\<forall>p. in_bounds (T, T) p \<longrightarrow> alpha (im_px ?ov p) = 255"
      and "in_bounds (T, T) p \<and> in_bounds (im_size bg) p" for p
    unfolding c using that by (intro paste_mask_opaque) simp_all
  have clear: "fst (composite_overlay E T bg ov) = bg"
    if "\<forall>p. in_bounds (T, T) p \<longrightarrow> alpha (im_px ?ov p) = 0"
    unfolding c using that by (intro paste_mask_transparent) simp
  show ?thesis
  proof (intro conjI allI impI)
    show "fst (composite_overlay E T bg ov) = paste_mask bg ?ov (0, 0) ?ov" by (rule c)
    show "im_size ?ov = (T, T)" by simp
    show "im_size (fst (composite_overlay E T bg ov)) = im_size bg" by (simp add: c)
    show "im_mode (fst (composite_overlay E T bg ov)) = im_mode bg" by (simp add: c)
  next
    assume "im_size ov = (T, T)"
    then show "im_px ?ov = im_px ov" by (rule fit_overlay_same_size)
  next
    fix p assume "in_bounds (T, T) p \<and> in_bounds (im_size bg) p"
    then show "\<exists>r g b a. im_px (fst (composite_overlay E T bg ov)) p = (r, g, b, a)
            \<and> \<bar>real (unat r) - spec_alpha_over (alpha (im_px ?ov p))
                   (fst (im_px bg p)) (fst (im_px ?ov p))\<bar> \<le> 1 / 2
            \<and> \<bar>real (unat g) - spec_alpha_over (alpha (im_px ?ov p))
                   (fst (snd (im_px bg p))) (fst (snd (im_px ?ov p)))\<bar> \<le> 1 / 2
            \<and> \<bar>real (unat b) - spec_alpha_over (alpha (im_px ?ov p))
                   (fst (snd (snd (im_px bg p)))) (fst (snd (snd (im_px ?ov p))))\<bar> \<le> 1 / 2"
      by (rule blend)
  next
    fix p
    assume "\<forall>p. in_bounds (T, T) p \<longrightarrow> alpha (im_px ?ov p) = 255"
      and "in_bounds (T, T) p \<and> in_bounds (im_size bg) p"
    then show "rgb (im_px (fst (composite_overlay E T bg ov)) p) = rgb (im_px ?ov p)"
      by (rule opaque)
  next
    assume "\<forall>p. in_bounds (T, T) p \<longrightarrow> alpha (im_px ?ov p) = 0"
    then show "fst (composite_overlay E T bg ov) = bg" by (rule clear)
  qed
qed


text \<open>
  Witness for C8: over the example background, a fully opaque overlay (of the tile size,
  and one of 4 by 4 pixels that is resized) gives the overlay's colour, a fully
  transparent one gives the background, and one with alpha 128 gives the blend.
\<close>

theorem composite_overlay_alpha_blend_witness:
  "(\<forall>p. alpha (im_px (fit_overlay example_env 2 (example_overlay 255)) p) = 255)
   \<and> in_bounds (2, 2) (1, 0) \<and> in_bounds (im_size example_bg) (1, 0)
   \<and> rgb (im_px (fst (composite_overlay example_env 2 example_bg (example_overlay 255))) (1, 0))
       = (200, 100, 50)
   \<and> (\<forall>p. alpha (im_px (fit_overlay example_env 2
                ((example_overlay 255)\<lparr>im_size := (4, 4)\<rparr>)) p) = 255)
   \<and> rgb (im_px (fst (composite_overlay example_env 2 example_bg
                ((example_overlay 255)\<lparr>im_size := (4, 4)\<rparr>))) (1, 0))
       = (200, 100, 50)
   \<and> (\<forall>p. alpha (im_px (fit_overlay example_env 2 (example_overlay 0)) p) = 0)
   \<and> fst (composite_overlay example_env 2 example_bg (example_overlay 0)) = example_bg
   \<and> im_size (example_overlay 128) = (2, 2)
   \<and> (\<exists>r g b a.
         im_px (fst (composite_overlay example_env 2 example_bg (example_overlay 128))) (1, 0)
           = (r, g, b, a)
       \<and> \<bar>real (unat r) - spec_alpha_over 128 10 200\<bar> \<le> 1 / 2)"
proof -
  have px: "im_px (fit_overlay example_env 2 (example_overlay a)) = (\<lambda>p. (200, 100, 50, a))" for a
    by (simp add: fit_overlay_def convert_RGBA_def example_overlay_def Let_def)
  have px4: "im_px (fit_overlay example_env 2 ((example_overlay a)\<lparr>im_size := (4, 4)\<rparr>))
               = (\<lambda>p. (200, 100, 50, a))" for a
    by (simp add: fit_overlay_def convert_RGBA_def resize_def example_overlay_def
          example_env_def Let_def)
  have b: "in_bounds (2, 2) (1, 0)" "in_bounds (im_size example_bg) (1, 0)"
    by (simp_all add: in_bounds_def example_bg_def)
  have bg: "im_px example_bg (1, 0) = (10, 20, 30, 255)" by (simp add: example_bg_def)
  note t = composite_overlay_alpha_blend [of example_env 2 example_bg]
  note blend = t [THEN conjunct2, THEN conjunct2, THEN conjunct2, THEN conjunct2,
      THEN conjunct2, THEN conjunct1, rule_format]
  note opaque = t [THEN conjunct2, THEN conjunct2, THEN conjunct2, THEN conjunct2,
      THEN conjunct2, THEN conjunct2, THEN conjunct1, rule_format]
  note clear = t [THEN conjunct2, THEN conjunct2, THEN conjunct2, THEN conjunct2,
      THEN conjunct2, THEN conjunct2, THEN conjunct2, rule_format]
  have h255: "\<forall>p. in_bounds (2, 2) p \<longrightarrow>
      alpha (im_px (fit_overlay example_env 2 (example_overlay 255)) p) = 255"
    by (simp add: px alpha_def)
  have h255': "\<forall>p. in_bounds (2, 2) p \<longrightarrow>
      alpha (im_px (fit_overlay example_env 2 ((example_overlay 255)\<lparr>im_size := (4, 4)\<rparr>)) p) = 255"
    by (simp add: px4 alpha_def)
  have h0: "\<forall>p. in_bounds (2, 2) p \<longrightarrow>
      alpha (im_px (fit_overlay example_env 2 (example_overlay 0)) p) = 0"
    by (simp add: px alpha_def)
  have bb: "in_bounds (2, 2) (1, 0) \<and> in_bounds (im_size example_bg) (1, 0)" using b by simp
  have 1: "rgb (im_px (fst (composite_overlay example_env 2 example_bg (example_overlay 255))) (1, 0))
       = (200, 100, 50)"
    using opaque [OF h255 [rule_format] bb] by (simp add: px rgb_def)
  have 2: "rgb (im_px (fst (composite_overlay example_env 2 example_bg
                ((example_overlay 255)\<lparr>im_size := (4, 4)\<rparr>))) (1, 0))
       = (200, 100, 50)"
    using opaque [OF h255' [rule_format] bb] by (simp add: px4 rgb_def)
  have 3: "fst (composite_overlay example_env 2 example_bg (example_overlay 0)) = example_bg"
    by (rule clear [OF h0 [rule_format]])
  have 4: "\<exists>r g b a.
         im_px (fst (composite_overlay example_env 2 example_bg (example_overlay 128))) (1, 0)
           = (r, g, b, a)
       \<and> \<bar>real (unat r) - spec_alpha_over 128 10 200\<bar> \<le> 1 / 2"
    using blend [OF bb, of "example_overlay 128"] unfolding px alpha_def bg by auto
  have 5: "\<forall>p. alpha (im_px (fit_overlay example_env 2 (example_overlay 255)) p) = 255"
    "\<forall>p. alpha (im_px (fit_overlay example_env 2
                ((example_overlay 255)\<lparr>im_size := (4, 4)\<rparr>)) p) = 255"
    "\<forall>p. alpha (im_px (fit_overlay example_env 2 (example_overlay 0)) p) = 0"
    by (simp_all add: px px4 alpha_def)
  have 6: "im_size (example_overlay 128) = (2, 2)" by (simp add: example_overlay_def)
  from 1 2 3 4 5 6 b show ?thesis by (intro conjI)
qed

text \<open>
  C9. The flag the compositor returns is true exactly when the fetched overlay has mode
  RGBA or LA, or has mode P and a transparency entry in its info. Whatever the flag, the
  overlay is converted to RGBA and pasted over the background. Every result a worker
  returns is such a composite of the overlay it fetched, with this flag.
\<close>

theorem custom_tile_used_iff_alpha_or_transparency:
  "snd (composite_overlay E T bg ov)
      = (im_mode ov = ''RGBA'' \<or> im_mode ov = ''LA''
         \<or> (im_mode ov = ''P'' \<and> im_info_transparency ov))
   \<and> im_mode (fit_overlay E T ov) = ''RGBA''
   \<and> fst (composite_overlay E T bg ov)
        = paste_mask bg (fit_overlay E T ov) (0, 0) (fit_overlay E T ov)
   \<and> (\<forall>x y z cd osm wp w x' y' im flag w'.
         process_and_composite_tile E (x, y, z, T, cd, osm, wp) w
           = Some (Inr (x', y', im, flag), w') \<longrightarrow>
         (\<exists>bg0 overlay url w1.
             get_tile_image_no_cache E url None 15 5 w1 = Some (Inr overlay, w')
           \<and> im = fst (composite_overlay E T (prepare_bg E T bg0) overlay)
           \<and> flag = (im_mode overlay = ''RGBA'' \<or> im_mode overlay = ''LA''
                      \<or> (im_mode overlay = ''P'' \<and> im_info_transparency overlay))))"
proof (intro conjI allI impI)
  show "snd (composite_overlay E T bg ov)
      = (im_mode ov = ''RGBA'' \<or> im_mode ov = ''LA''
         \<or> (im_mode ov = ''P'' \<and> im_info_transparency ov))"
    by (simp add: composite_overlay_eq has_alpha_or_transparency_def)
  show "im_mode (fit_overlay E T ov) = ''RGBA''" by simp
  show "fst (composite_overlay E T bg ov)
        = paste_mask bg (fit_overlay E T ov) (0, 0) (fit_overlay E T ov)"
    by (simp add: composite_overlay_eq)
next
  fix x y z cd osm wp w x' y' im flag w'
  assume "process_and_composite_tile E (x, y, z, T, cd, osm, wp) w
           = Some (Inr (x', y', im, flag), w')"
  from process_and_composite_tile_Inr [OF this] obtain bg0 overlay url w1 where
    f: "get_tile_image_no_cache E url None 15 5 w1 = Some (Inr overlay, w')" and
    c: "(im, flag) = composite_overlay E T (prepare_bg E T bg0) overlay"
    by blast
  from c have "im = fst (composite_overlay E T (prepare_bg E T bg0) overlay)"
    "flag = (im_mode overlay = ''RGBA'' \<or> im_mode overlay = ''LA''
                      \<or> (im_mode overlay = ''P'' \<and> im_info_transparency overlay))"
    by (simp_all add: composite_overlay_eq has_alpha_or_transparency_def)
  with f show "\<exists>bg0 overlay url w1.
             get_tile_image_no_cache E url None 15 5 w1 = Some (Inr overlay, w')
           \<and> im = fst (composite_overlay E T (prepare_bg E T bg0) overlay)
           \<and> flag = (im_mode overlay = ''RGBA'' \<or> im_mode overlay = ''LA''
                      \<or> (im_mode overlay = ''P'' \<and> im_info_transparency overlay))"
    by blast
qed


text \<open>
  Witness for C9: an RGBA overlay and a palette overlay with a transparency entry set the
  flag, an RGB overlay and a palette overlay without the entry do not; the example
  worker of tile (0, 1) returns with the flag set.
\<close>

theorem custom_tile_used_iff_alpha_or_transparency_witness:
  "snd (composite_overlay example_env 2 example_bg (example_overlay 0)) = True
   \<and> snd (composite_overlay example_env 2 example_bg example_bg) = False
   \<and> snd (composite_overlay example_env 2 example_bg
            (example_bg\<lparr>im_mode := ''P'', im_info_transparency := True\<rparr>)) = True
   \<and> snd (composite_overlay example_env 2 example_bg
            (example_bg\<lparr>im_mode := ''P''\<rparr>)) = False
   \<and> (\<exists>im w'.
         process_and_composite_tile example_env
           (0, 1, 1, 2, ''c'', cfg_OSM_URL example_params, cfg_WPLACE_URL example_params)
           example_world
           = Some (Inr (0, 1, im, True), w')
       \<and> (\<exists>bg0 overlay url w1.
             get_tile_image_no_cache example_env url None 15 5 w1 = Some (Inr overlay, w')
           \<and> im = fst (composite_overlay example_env 2 (prepare_bg example_env 2 bg0) overlay)
           \<and> (im_mode overlay = ''RGBA'' \<or> im_mode overlay = ''LA''
                \<or> (im_mode overlay = ''P'' \<and> im_info_transparency overlay))))"
proof -
  note t = custom_tile_used_iff_alpha_or_transparency [of example_env 2 example_bg]
  have 1: "snd (composite_overlay example_env 2 example_bg (example_overlay 0)) = True"
    using t [of "example_overlay 0"] by (simp add: example_overlay_def)
  have 2: "snd (composite_overlay example_env 2 example_bg example_bg) = False"
    using t [of example_bg] by (simp add: example_bg_def)
  have 3: "snd (composite_overlay example_env 2 example_bg
            (example_bg\<lparr>im_mode := ''P'', im_info_transparency := True\<rparr>)) = True"
    using t [of "example_bg\<lparr>im_mode := ''P'', im_info_transparency := True\<rparr>"] by simp
  have 4: "snd (composite_overlay example_env 2 example_bg
            (example_bg\<lparr>im_mode := ''P''\<rparr>)) = False"
    using t [of "example_bg\<lparr>im_mode := ''P''\<rparr>"] by (simp add: example_bg_def)
  from example_worker_returns obtain im w' where
    r: "process_and_composite_tile example_env
           (0, 1, 1, 2, ''c'', cfg_OSM_URL example_params, cfg_WPLACE_URL example_params)
           example_world
           = Some (Inr (0, 1, im, True), w')"
    by (auto simp: example_task_def example_params_def)
  from t [THEN conjunct2, THEN conjunct2, THEN conjunct2, rule_format, OF r]
  have "\<exists>bg0 overlay url w1.
             get_tile_image_no_cache example_env url None 15 5 w1 = Some (Inr overlay, w')
           \<and> im = fst (composite_overlay example_env 2 (prepare_bg example_env 2 bg0) overlay)
           \<and> (im_mode overlay = ''RGBA'' \<or> im_mode overlay = ''LA''
                \<or> (im_mode overlay = ''P'' \<and> im_info_transparency overlay))"
    by simp
  with r have 5: "\<exists>im w'.
         process_and_composite_tile example_env
           (0, 1, 1, 2, ''c'', cfg_OSM_URL example_params, cfg_WPLACE_URL example_params)
           example_world
           = Some (Inr (0, 1, im, True), w')
       \<and> (\<exists>bg0 overlay url w1.
             get_tile_image_no_cache example_env url None 15 5 w1 = Some (Inr overlay, w')
           \<and> im = fst (composite_overlay example_env 2 (prepare_bg example_env 2 bg0) overlay)
           \<and> (im_mode overlay = ''RGBA'' \<or> im_mode overlay = ''LA''
                \<or> (im_mode overlay = ''P'' \<and> im_info_transparency overlay)))"
    by blast
  from 1 2 3 4 5 show ?thesis by (intro conjI)
qed

end
